theory Spec2Isabelle
  imports Main
begin

section \<open>The page the widgets act on\<close>

text \<open>
  An element is a node of the DOM tree: its identity \<open>eid\<close>, its \<open>nodeName\<close> and
  its element children (\<open>element.children\<close>, \<open>firstElementChild\<close> and
  \<open>nextElementSibling\<close> all skip text nodes). No two nodes of a document share an
  identity (\<open>distinct (ids root)\<close>), so equality of elements is what \<open>===\<close>
  compares. No widget of the repository adds or removes a node, so the tree is a value;
  what the widgets change (attributes, focus, the instances they hang on elements) lives
  in the \<open>page\<close>.
\<close>

datatype element = Element (eid: nat) (nodeName: string) (children: "element list")

fun descendants :: "element \<Rightarrow> element list" where
  "descendants (Element i n cs) = Element i n cs # concat (map descendants cs)"

definition ids :: "element \<Rightarrow> nat list" where
  "ids e = map eid (descendants e)"

text \<open>\<open>node.contains(other)\<close>: \<open>other\<close> is the node or one of its descendants;
  \<open>contains(null)\<close> is false.\<close>

definition contains :: "element \<Rightarrow> element option \<Rightarrow> bool" where
  "contains root other = (case other of None \<Rightarrow> False | Some e \<Rightarrow> e \<in> set (descendants root))"

definition firstElementChild :: "element \<Rightarrow> element option" where
  "firstElementChild e = (case children e of [] \<Rightarrow> None | c # _ \<Rightarrow> Some c)"

fun nextIn :: "element list \<Rightarrow> element \<Rightarrow> element option" where
  "nextIn (x # y # ys) e = (if x = e then Some y else nextIn (y # ys) e)"
| "nextIn _ e = None"

text \<open>\<open>e.nextElementSibling\<close>, found from a root whose tree holds \<open>e\<close>: the
  value tree has no parent pointers, so the parent is searched for.\<close>

fun nextElementSibling :: "element \<Rightarrow> element \<Rightarrow> element option"
  and nextElementSiblingAmong :: "element list \<Rightarrow> element \<Rightarrow> element option"
where
  "nextElementSibling (Element i n cs) e =
     (if e \<in> set cs then nextIn cs e else nextElementSiblingAmong cs e)"
| "nextElementSiblingAmong [] e = None"
| "nextElementSiblingAmong (c # cs) e =
     (case nextElementSibling c e of
        Some s \<Rightarrow> Some s
      | None \<Rightarrow> nextElementSiblingAmong cs e)"

text \<open>Attribute values: \<open>setAttribute\<close> is given strings and numbers.\<close>

datatype attrValue = Text string | Number nat

text \<open>A thrown exception does not undo the effects before it: an outcome keeps the
  state reached either way.\<close>

datatype error = TypeError

datatype 'a outcome = Returned 'a | Threw error 'a

fun reached :: "'a outcome \<Rightarrow> 'a" where
  "reached (Returned s) = s"
| "reached (Threw e s) = s"

fun faulted :: "'a outcome \<Rightarrow> bool" where
  "faulted (Returned s) = False"
| "faulted (Threw e s) = True"

text \<open>Modelled from the spec: \<open>lib/keyCodes\<close> is not among the sources. The spec
  names the keys (arrows, Home, End, Tab, Escape) and not their codes: these are the codes
  the DOM gives them. The theorems below use only that they differ.\<close>

definition TAB :: nat where "TAB = 9"
definition RETURN :: nat where "RETURN = 13"
definition ESC :: nat where "ESC = 27"
definition SPACE :: nat where "SPACE = 32"
definition END :: nat where "END = 35"
definition HOME :: nat where "HOME = 36"
definition LEFT :: nat where "LEFT = 37"
definition UP :: nat where "UP = 38"
definition RIGHT :: nat where "RIGHT = 39"
definition DOWN :: nat where "DOWN = 40"

record event =
  keyCode :: nat
  shiftKey :: bool
  defaultPrevented :: bool
  propagationStopped :: bool

definition preventDefault :: "event \<Rightarrow> event" where
  "preventDefault ev = ev\<lparr>defaultPrevented := True\<rparr>"

definition stopPropagation :: "event \<Rightarrow> event" where
  "stopPropagation ev = ev\<lparr>propagationStopped := True\<rparr>"

text \<open>The handlers the widgets register, each with the instance it is bound to.\<close>

datatype handler =
    HandleListKeydown nat
  | HandleMenuBarKeydown nat
  | HandleMenuBarClick nat
  | HandleControllerKeydown nat

text \<open>A Popup instance, as far as the sources here read it: \<open>popup.state.expanded\<close>
  and \<open>popup.firstChild\<close>.\<close>

record popup =
  popupController :: element
  popupTarget :: element
  expanded :: bool
  firstChild :: "element option"

text \<open>A MenuItem instance (\<open>src/MenuItem/index.js\<close>).\<close>

record menuItem =
  itemList :: element
  listItems :: "element list"
  menuItems :: "element list"
  menuItemsLength :: nat
  firstItem :: "element option"
  previousSibling :: "element option"

text \<open>A Menu instance, as far as the sources here read and write it:
  \<open>menu.firstItem\<close>, \<open>menu.lastItem\<close> and \<open>subList.previousSibling\<close>.\<close>

record menu =
  menuFirstItem :: "element option"
  menuLastItem :: "element option"
  menuPreviousSibling :: "element option"

text \<open>The page: \<open>document.activeElement\<close>, the attributes of every element, the
  registered listeners, and the instances saved on elements (\<open>list.menuItem\<close>,
  \<open>controller.popup\<close>, \<open>target.menu\<close>), each keyed by the element's identity.\<close>

record page =
  activeElement :: "element option"
  attributes :: "nat \<Rightarrow> string \<Rightarrow> attrValue option"
  listeners :: "(nat \<times> string \<times> handler) list"
  menuItemOf :: "nat \<Rightarrow> menuItem option"
  popupOf :: "nat \<Rightarrow> popup option"
  menuOf :: "nat \<Rightarrow> menu option"

definition setAttribute :: "element \<Rightarrow> string \<Rightarrow> attrValue \<Rightarrow> page \<Rightarrow> page" where
  "setAttribute e name v pg =
     pg\<lparr>attributes := (attributes pg)(eid e := (attributes pg (eid e))(name \<mapsto> v))\<rparr>"

definition removeAttribute :: "element \<Rightarrow> string \<Rightarrow> page \<Rightarrow> page" where
  "removeAttribute e name pg =
     pg\<lparr>attributes := (attributes pg)(eid e := (attributes pg (eid e))(name := None))\<rparr>"

definition getAttribute :: "page \<Rightarrow> element \<Rightarrow> string \<Rightarrow> attrValue option" where
  "getAttribute pg e name = attributes pg (eid e) name"

definition addEventListener :: "element \<Rightarrow> string \<Rightarrow> handler \<Rightarrow> page \<Rightarrow> page" where
  "addEventListener e type h pg = pg\<lparr>listeners := listeners pg @ [(eid e, type, h)]\<rparr>"

text \<open>\<open>element.focus()\<close>, for an element that takes focus.\<close>

definition focus :: "element \<Rightarrow> page \<Rightarrow> page" where
  "focus e pg = pg\<lparr>activeElement := Some e\<rparr>"

text \<open>JavaScript array reads: \<open>xs[i]\<close> is \<open>undefined\<close> outside the array,
  \<open>xs.indexOf(x)\<close> is \<open>-1\<close> when \<open>x\<close> is not an entry (\<open>undefined\<close> never is).\<close>

definition at :: "'a list \<Rightarrow> int \<Rightarrow> 'a option" where
  "at xs i = (if 0 \<le> i \<and> i < int (length xs) then Some (xs ! nat i) else None)"

fun indexFrom :: "'a list \<Rightarrow> 'a \<Rightarrow> int \<Rightarrow> int" where
  "indexFrom [] x k = -1"
| "indexFrom (y # ys) x k = (if y = x then k else indexFrom ys x (k + 1))"

definition indexOf :: "'a list \<Rightarrow> 'a option \<Rightarrow> int" where
  "indexOf xs x = (case x of None \<Rightarrow> -1 | Some v \<Rightarrow> indexFrom xs v 0)"

section \<open>MenuItem\<close>

text \<open>\<open>MenuItem.nextElementIsUl\<close>; \<open>false\<close> is \<open>None\<close>.\<close>

definition nextElementIsUl :: "element \<Rightarrow> element \<Rightarrow> element option" where
  "nextElementIsUl root e =
     (case nextElementSibling root e of
        None \<Rightarrow> None
      | Some next \<Rightarrow> if nodeName next = ''UL'' then Some next else None)"

text \<open>The reduce of \<open>init\<close> (and of \<open>MenuBar.init\<close>): the first element children that
  are anchors, in order.\<close>

fun collectLinks :: "element list \<Rightarrow> element list" where
  "collectLinks [] = []"
| "collectLinks (item # rest) =
     (case firstElementChild item of
        None \<Rightarrow> collectLinks rest
      | Some itemLink \<Rightarrow>
          if nodeName itemLink = ''A'' then itemLink # collectLinks rest
          else collectLinks rest)"

definition describedBy :: string where
  "describedBy =
     ''menu-class-submenu-explore menu-class-submenu-help menu-class-submenu-back menu-class-esc-help''"

definition setPreviousSibling :: "element \<Rightarrow> element \<Rightarrow> page \<Rightarrow> page" where
  "setPreviousSibling subList link pg =
     (case menuItemOf pg (eid subList) of
        None \<Rightarrow> pg
      | Some inst \<Rightarrow>
          pg\<lparr>menuItemOf := (menuItemOf pg)(eid subList \<mapsto> inst\<lparr>previousSibling := Some link\<rparr>)\<rparr>)"

text \<open>
  \<open>new MenuItem(list)\<close>: the constructor saves the instance on the list and runs
  \<open>init\<close>, whose \<open>forEach\<close> over the collected links is \<open>MenuItem_forEach\<close> (the
  links still to visit and the index of the first of them). A link's next sibling is
  looked for inside the list: the link is a grandchild of the list.
\<close>

function MenuItem_new :: "element \<Rightarrow> page \<Rightarrow> page"
  and MenuItem_forEach :: "element \<Rightarrow> nat \<Rightarrow> element list \<Rightarrow> nat \<Rightarrow> page \<Rightarrow> page"
where
  "MenuItem_new list pg =
     (let items = children list;
          links = collectLinks items;
          this = \<lparr>itemList = list, listItems = items, menuItems = links,
                  menuItemsLength = length links, firstItem = None,
                  previousSibling = None\<rparr>;
          pg1 = pg\<lparr>menuItemOf := (menuItemOf pg)(eid list \<mapsto> this)\<rparr>;
          pg2 = MenuItem_forEach list (length links) links 0 pg1
      in (case menuItemOf pg2 (eid list) of
            None \<Rightarrow> pg2
          | Some inst \<Rightarrow>
              pg2\<lparr>menuItemOf := (menuItemOf pg2)(eid list \<mapsto> inst\<lparr>firstItem := at links 0\<rparr>)\<rparr>))"
| "MenuItem_forEach list n [] index pg = pg"
| "MenuItem_forEach list n (link # rest) index pg =
     (let pg1 = setAttribute link ''aria-describedby'' (Text describedBy) pg;
          pg2 = setAttribute link ''aria-setsize'' (Number n) pg1;
          pg3 = setAttribute link ''aria-posinset'' (Number (index + 1)) pg2;
          pg4 = addEventListener link ''keydown'' (HandleListKeydown (eid list)) pg3;
          pg5 = (case nextElementIsUl list link of
                   None \<Rightarrow> pg4
                 | Some siblingList \<Rightarrow>
                     setPreviousSibling siblingList link (MenuItem_new siblingList pg4))
      in MenuItem_forEach list n rest (index + 1) pg5)"
  by pat_completeness auto
termination
proof -
  have nxt: "nextIn cs e = Some s \<Longrightarrow> s \<in> set cs" for cs e s
    by (induction cs e rule: nextIn.induct) (auto split: if_splits)
  have mem: "s \<in> set cs \<Longrightarrow> size s < Suc (size_list size cs)" for s :: element and cs
    by (induction cs) auto
  have within: "\<forall>s. nextElementSibling root e = Some s \<longrightarrow> size s < size root"
    and among: "\<forall>s. nextElementSiblingAmong cs e = Some s \<longrightarrow> size s < Suc (size_list size cs)"
    for root cs e
    by (induction root e and cs e rule: nextElementSibling_nextElementSiblingAmong.induct)
      (auto split: option.splits if_splits dest!: nxt mem)
  have ul: "nextElementIsUl list link = Some s \<Longrightarrow> size s < size list" for list link s
    using within [of list link]
    by (auto simp: nextElementIsUl_def split: option.splits if_splits)
  show ?thesis
    by (relation "measures [\<lambda>x. case x of Inl (l, p) \<Rightarrow> size l | Inr (l, n, ls, i, p) \<Rightarrow> size l,
                            \<lambda>x. case x of Inl (l, p) \<Rightarrow> 1 | Inr (l, n, ls, i, p) \<Rightarrow> 0,
                            \<lambda>x. case x of Inl (l, p) \<Rightarrow> 0 | Inr (l, n, ls, i, p) \<Rightarrow> length ls]")
      (auto dest: ul)
qed

declare MenuItem_new.simps [simp del]

text \<open>Modelled from the spec: the Popup class is not among the sources. "Popup:
  shows/hides a target element relative to a controller; manages
  aria-expanded/aria-hidden". \<open>popup.setState({ expanded })\<close> and
  \<open>popup.setExpandedState(expanded)\<close>, as the sources call it, set
  \<open>popup.state.expanded\<close> and the two attributes. A popup is referred to by the
  element it is saved on.\<close>

definition Popup_setExpanded :: "nat \<Rightarrow> bool \<Rightarrow> page \<Rightarrow> page" where
  "Popup_setExpanded ref v pg =
     (case popupOf pg ref of
        None \<Rightarrow> pg
      | Some p \<Rightarrow>
          (let pg1 = pg\<lparr>popupOf := (popupOf pg)(ref \<mapsto> p\<lparr>expanded := v\<rparr>)\<rparr>;
               pg2 = setAttribute (popupController p) ''aria-expanded''
                       (Text (if v then ''true'' else ''false'')) pg1
           in setAttribute (popupTarget p) ''aria-hidden''
                (Text (if v then ''false'' else ''true'')) pg2))"

text \<open>\<open>handleListKeydown\<close>. \<open>doc\<close> is the document's root, which
  \<open>nextElementSibling\<close> is read from; \<open>this\<close> is the instance the handler is bound
  to. \<open>instanceOf(element, MenuItem)\<close> and \<open>instanceOf(element, Popup)\<close> (the
  helper is not among the sources) read the instance saved on the element under the
  class's name.\<close>

definition activeDescendant :: "menuItem \<Rightarrow> page \<Rightarrow> element option" where
  "activeDescendant this pg =
     (if contains (itemList this) (activeElement pg) then activeElement pg
      else at (menuItems this) 0)"

definition handleListKeydown ::
  "element \<Rightarrow> menuItem \<Rightarrow> event \<Rightarrow> page \<Rightarrow> (event \<times> page) outcome" where
  "handleListKeydown doc this ev pg =
     (let active = activeDescendant this pg;
          menuLastIndex = int (length (menuItems this)) - 1;
          activeIndex = indexOf (menuItems this) active
      in if keyCode ev \<in> {UP, DOWN} then
           (let ev1 = preventDefault (stopPropagation ev);
                nextIndex = (if keyCode ev = UP then activeIndex - 1 else activeIndex + 1);
                nextIndex1 = (if UP = keyCode ev \<and> 0 > nextIndex then menuLastIndex
                              else nextIndex);
                nextIndex2 = (if DOWN = keyCode ev \<and> menuLastIndex < nextIndex1 then 0
                              else nextIndex1)
            in case at (menuItems this) nextIndex2 of
                 None \<Rightarrow> Threw TypeError (ev1, pg)
               | Some item \<Rightarrow> Returned (ev1, focus item pg))
         else if RIGHT = keyCode ev then
           (case active of
              None \<Rightarrow> Threw TypeError (ev, pg)
            | Some a \<Rightarrow>
                (case nextElementIsUl doc a of
                   None \<Rightarrow> Returned (ev, pg)
                 | Some siblingElement \<Rightarrow>
                     (case menuItemOf pg (eid siblingElement) of
                        None \<Rightarrow> Returned (ev, pg)
                      | Some inst \<Rightarrow>
                          (let ev1 = preventDefault (stopPropagation ev)
                           in case firstItem inst of
                                None \<Rightarrow> Threw TypeError (ev1, pg)
                              | Some first \<Rightarrow> Returned (ev1, focus first pg)))))
         else if LEFT = keyCode ev then
           (case previousSibling this of
              None \<Rightarrow> Returned (ev, pg)
            | Some prev \<Rightarrow>
                (let ev1 = preventDefault (stopPropagation ev);
                     pg1 = (case popupOf pg (eid prev) of
                              None \<Rightarrow> pg
                            | Some p \<Rightarrow>
                                if expanded p then Popup_setExpanded (eid prev) False pg
                                else pg)
                 in Returned (ev1, focus prev pg1)))
         else Returned (ev, pg))"

section \<open>Popup and Menu, which the sources use and do not hold\<close>

text \<open>Modelled from the spec: the Popup constructor, \<open>show\<close> and \<open>hide\<close> are not
  among the sources. The constructor saves the instance on its controller ("self-reference
  bookkeeping on DOM nodes") with the popup hidden; \<open>popup.firstChild\<close>, which
  the spec does not describe, is what \<open>firstChildOf\<close> finds in the target.\<close>

definition Popup_new ::
  "(element \<Rightarrow> element option) \<Rightarrow> element \<Rightarrow> element \<Rightarrow> page \<Rightarrow> page" where
  "Popup_new firstChildOf controller target pg =
     (let p = \<lparr>popupController = controller, popupTarget = target, expanded = False,
                firstChild = firstChildOf target\<rparr>;
          pg1 = pg\<lparr>popupOf := (popupOf pg)(eid controller \<mapsto> p)\<rparr>
      in Popup_setExpanded (eid controller) False pg1)"

definition Popup_show :: "nat \<Rightarrow> page \<Rightarrow> page" where
  "Popup_show ref pg = Popup_setExpanded ref True pg"

definition Popup_hide :: "nat \<Rightarrow> page \<Rightarrow> page" where
  "Popup_hide ref pg = Popup_setExpanded ref False pg"

text \<open>\<open>new Menu({ menu: element })\<close> is not among the sources and the spec does not
  say what it collects: it is a parameter of the definitions that call it, the instance
  it returns and what it does to the page.\<close>

type_synonym menuConstructor = "element \<Rightarrow> page \<Rightarrow> menu \<times> page"

section \<open>MenuButton\<close>

text \<open>\<open>this.menu\<close> holds the \<open>menu\<close> option (\<open>null\<close> or an element) until
  \<open>init\<close> replaces it by a Menu instance.\<close>

datatype menuRef = MenuNull | MenuElement element | MenuInstance menu

record menuButton =
  buttonController :: "element option"
  buttonTarget :: "element option"
  buttonMenu :: menuRef
  buttonPopup :: "nat option"

text \<open>The step of \<open>init\<close> that initializes the Menu.\<close>

definition MenuButton_initMenu ::
  "menuConstructor \<Rightarrow> element \<Rightarrow> menuButton \<Rightarrow> page \<Rightarrow> menuButton \<times> page" where
  "MenuButton_initMenu newMenu target this pg =
     (let fallback =
            (if nodeName target = ''UL''
             then (let (inst, pg1) = newMenu target pg
                   in (this\<lparr>buttonMenu := MenuInstance inst\<rparr>, pg1))
             else (this, pg))
      in case buttonMenu this of
           MenuElement m \<Rightarrow>
             if nodeName m = ''UL''
             then (let (inst, pg1) = newMenu m pg
                   in (this\<lparr>buttonMenu := MenuInstance inst\<rparr>, pg1))
             else fallback
         | _ \<Rightarrow> fallback)"

definition MenuButton_init ::
  "menuConstructor \<Rightarrow> (element \<Rightarrow> element option) \<Rightarrow> element \<Rightarrow> element \<Rightarrow>
     menuButton \<Rightarrow> page \<Rightarrow> menuButton \<times> page" where
  "MenuButton_init newMenu firstChildOf controller target this pg =
     (let pg1 = Popup_new firstChildOf controller target pg;
          this1 = this\<lparr>buttonPopup := Some (eid controller)\<rparr>;
          (this2, pg2) = MenuButton_initMenu newMenu target this1 pg1
      in (this2,
          addEventListener controller ''keydown'' (HandleControllerKeydown (eid controller)) pg2))"

text \<open>The constructor: the options merged over their defaults, and \<open>init\<close> only
  with a controller and a target.\<close>

definition MenuButton_new ::
  "menuConstructor \<Rightarrow> (element \<Rightarrow> element option) \<Rightarrow> element option \<Rightarrow> element option \<Rightarrow>
     element option \<Rightarrow> page \<Rightarrow> menuButton \<times> page" where
  "MenuButton_new newMenu firstChildOf controller target menuOption pg =
     (let this = \<lparr>buttonController = controller, buttonTarget = target,
                   buttonMenu = (case menuOption of None \<Rightarrow> MenuNull | Some m \<Rightarrow> MenuElement m),
                   buttonPopup = None\<rparr>
      in case (controller, target) of
           (Some c, Some t) \<Rightarrow> MenuButton_init newMenu firstChildOf c t this pg
         | _ \<Rightarrow> (this, pg))"

definition MenuButton_show :: "menuButton \<Rightarrow> page \<Rightarrow> page outcome" where
  "MenuButton_show this pg =
     (case buttonPopup this of
        None \<Rightarrow> Threw TypeError pg
      | Some ref \<Rightarrow> Returned (Popup_show ref pg))"

text \<open>\<open>this.menu.firstItem\<close> and \<open>this.menu.lastItem\<close>: reading a property of
  \<open>null\<close> throws, an element has neither property (\<open>undefined\<close>).\<close>

definition readFirstItem :: "menuRef \<Rightarrow> error + element option" where
  "readFirstItem m =
     (case m of
        MenuNull \<Rightarrow> Inl TypeError
      | MenuElement e \<Rightarrow> Inr None
      | MenuInstance inst \<Rightarrow> Inr (menuFirstItem inst))"

definition readLastItem :: "menuRef \<Rightarrow> error + element option" where
  "readLastItem m =
     (case m of
        MenuNull \<Rightarrow> Inl TypeError
      | MenuElement e \<Rightarrow> Inr None
      | MenuInstance inst \<Rightarrow> Inr (menuLastItem inst))"

definition focusItem :: "error + element option \<Rightarrow> event \<Rightarrow> page \<Rightarrow> (event \<times> page) outcome" where
  "focusItem item ev pg =
     (case item of
        Inl e \<Rightarrow> Threw e (ev, pg)
      | Inr None \<Rightarrow> Returned (ev, pg)
      | Inr (Some i) \<Rightarrow> Returned (ev, focus i pg))"

definition handleControllerKeydown ::
  "menuButton \<Rightarrow> event \<Rightarrow> page \<Rightarrow> (event \<times> page) outcome" where
  "handleControllerKeydown this ev pg =
     (if keyCode ev \<in> {RETURN, SPACE, DOWN} then
        (let ev1 = preventDefault ev
         in case MenuButton_show this pg of
              Threw e pg1 \<Rightarrow> Threw e (ev1, pg1)
            | Returned pg1 \<Rightarrow> focusItem (readFirstItem (buttonMenu this)) ev1 pg1)
      else if keyCode ev = UP then
        (let ev1 = preventDefault ev
         in case MenuButton_show this pg of
              Threw e pg1 \<Rightarrow> Threw e (ev1, pg1)
            | Returned pg1 \<Rightarrow> focusItem (readLastItem (buttonMenu this)) ev1 pg1)
      else Returned (ev, pg))"

section \<open>MenuBar\<close>

text \<open>Modelled from the spec: \<open>lib/rovingTabIndex\<close> is not among the sources. "Roving
  tabindex management": the item given as \<open>allow\<close> is allowed in the tab order
  (\<open>tabIndexAllow\<close> removes its \<open>tabindex\<close> attribute, what \<open>MenuBar.destroy\<close>
  calls reverting the attribute), and every other item is taken out of it
  (\<open>tabindex="-1"\<close>).\<close>

definition tabIndexAllow :: "element list \<Rightarrow> page \<Rightarrow> page" where
  "tabIndexAllow items pg = fold (\<lambda>item. removeAttribute item ''tabindex'') items pg"

definition tabIndexDeny :: "element list \<Rightarrow> page \<Rightarrow> page" where
  "tabIndexDeny items pg = fold (\<lambda>item. setAttribute item ''tabindex'' (Text ''-1'')) items pg"

definition rovingTabIndex :: "element list \<Rightarrow> element \<Rightarrow> page \<Rightarrow> page" where
  "rovingTabIndex items allow pg =
     tabIndexDeny (filter (\<lambda>item. item \<noteq> allow) items) (tabIndexAllow [allow] pg)"

text \<open>An element is reached by the Tab key unless its \<open>tabindex\<close> is \<open>-1\<close>.\<close>

definition inTabOrder :: "page \<Rightarrow> element \<Rightarrow> bool" where
  "inTabOrder pg e = (getAttribute pg e ''tabindex'' \<noteq> Some (Text ''-1''))"

record menuBarState =
  menubarItem :: "element option"
  statePopup :: "nat option"

text \<open>A MenuBar instance. \<open>searchString\<close> is the string the type-ahead collects, as
  the list of its characters' codes.\<close>

record menuBar =
  menuBarMenu :: "element option"
  menuBarChildren :: "element list"
  menuBarItems :: "element list"
  menuLength :: nat
  lastIndex :: int
  popups :: "nat list"
  barState :: menuBarState
  searchString :: "nat list"

text \<open>\<open>getPopupFromMenubarItem\<close>: \<open>false\<close> is \<open>None\<close>; reading \<open>.popup\<close> of
  \<open>undefined\<close> throws. \<open>isInstanceOf\<close> (not among the sources) is \<open>instanceof\<close>
  on what the Popup saved on the element.\<close>

definition getPopupFromMenubarItem :: "page \<Rightarrow> element option \<Rightarrow> error + nat option" where
  "getPopupFromMenubarItem pg item =
     (case item of
        None \<Rightarrow> Inl TypeError
      | Some i \<Rightarrow>
          Inr (case popupOf pg (eid i) of None \<Rightarrow> None | Some p \<Rightarrow> Some (eid i)))"

text \<open>The two \<open>forEach\<close> loops of \<open>init\<close> and the \<open>reduce\<close> that builds
  \<open>this.popups\<close>.\<close>

fun MenuBar_forEachChild :: "nat \<Rightarrow> nat \<Rightarrow> element list \<Rightarrow> nat \<Rightarrow> page \<Rightarrow> page" where
  "MenuBar_forEachChild self n [] index pg = pg"
| "MenuBar_forEachChild self n (item # rest) index pg =
     (let pg1 = setAttribute item ''aria-setsize'' (Number n) pg;
          pg2 = setAttribute item ''aria-posinset'' (Number (index + 1)) pg1;
          pg3 = setAttribute item ''role'' (Text ''menuitem'') pg2;
          pg4 = addEventListener item ''keydown'' (HandleMenuBarKeydown self) pg3
      in MenuBar_forEachChild self n rest (index + 1) pg4)"

definition barDescribedBy :: string where
  "barDescribedBy = ''ac-describe-top-level-help ac-describe-submenu-help ac-describe-esc-help''"

fun MenuBar_forEachLink :: "nat \<Rightarrow> element list \<Rightarrow> page \<Rightarrow> page" where
  "MenuBar_forEachLink self [] pg = pg"
| "MenuBar_forEachLink self (link # rest) pg =
     (let pg1 = setAttribute link ''aria-describedby'' (Text barDescribedBy) pg;
          pg2 = addEventListener link ''click'' (HandleMenuBarClick self) pg1
      in MenuBar_forEachLink self rest pg2)"

fun MenuBar_popups ::
  "menuConstructor \<Rightarrow> (element \<Rightarrow> element option) \<Rightarrow> element \<Rightarrow> element list \<Rightarrow>
     nat list \<Rightarrow> page \<Rightarrow> nat list \<times> page" where
  "MenuBar_popups newMenu firstChildOf root [] acc pg = (acc, pg)"
| "MenuBar_popups newMenu firstChildOf root (controller # rest) acc pg =
     (case nextElementSibling root controller of
        None \<Rightarrow> MenuBar_popups newMenu firstChildOf root rest acc pg
      | Some target \<Rightarrow>
          if nodeName target = ''UL'' then
            (let pg1 = Popup_new firstChildOf controller target pg;
                 (subList, pg2) = newMenu target pg1;
                 pg3 = pg2\<lparr>menuOf := (menuOf pg2)(eid target \<mapsto>
                         subList\<lparr>menuPreviousSibling := Some controller\<rparr>)\<rparr>
             in MenuBar_popups newMenu firstChildOf root rest (acc @ [eid controller]) pg3)
          else MenuBar_popups newMenu firstChildOf root rest acc pg)"

text \<open>\<open>init\<close>, for the \<open>ul\<close> the constructor found in \<open>this.menu\<close>. The
  callbacks (\<open>onInit\<close>, \<open>onStateChange\<close>) are the caller's and default to doing
  nothing; the self-reference on the menu and the console warning are read by no source
  here. The Menu instance made for a nested list is kept on that list.\<close>

definition MenuBar_init ::
  "menuConstructor \<Rightarrow> (element \<Rightarrow> element option) \<Rightarrow> element \<Rightarrow> menuBar \<Rightarrow> page \<Rightarrow>
     (menuBar \<times> page) outcome" where
  "MenuBar_init newMenu firstChildOf ul this pg =
     (let pg1 = setAttribute ul ''role'' (Text ''menubar'') pg;
          kids = children ul;
          items = collectLinks kids;
          len = length items;
          pg2 = MenuBar_forEachChild (eid ul) len kids 0 pg1;
          pg3 = MenuBar_forEachLink (eid ul) items pg2;
          (ps, pg4) = MenuBar_popups newMenu firstChildOf ul items [] pg3;
          this1 = this\<lparr>menuBarChildren := kids, menuBarItems := items, menuLength := len,
                       lastIndex := int len - 1, popups := ps\<rparr>
      in case at items 0 of
           None \<Rightarrow> Threw TypeError (this1, pg4)
         | Some first \<Rightarrow>
             (case getPopupFromMenubarItem pg4 (Some first) of
                Inl e \<Rightarrow> Threw e (this1, pg4)
              | Inr popup \<Rightarrow>
                  Returned
                    (this1\<lparr>barState := \<lparr>menubarItem = Some first, statePopup = popup\<rparr>\<rparr>,
                     rovingTabIndex items first pg4)))"

definition MenuBar_new ::
  "menuConstructor \<Rightarrow> (element \<Rightarrow> element option) \<Rightarrow> element option \<Rightarrow> page \<Rightarrow>
     (menuBar \<times> page) outcome" where
  "MenuBar_new newMenu firstChildOf menuOption pg =
     (let this = \<lparr>menuBarMenu = menuOption, menuBarChildren = [], menuBarItems = [],
                   menuLength = 0, lastIndex = 0, popups = [],
                   barState = \<lparr>menubarItem = None, statePopup = None\<rparr>,
                   searchString = []\<rparr>
      in case menuOption of
           None \<Rightarrow> Returned (this, pg)
         | Some ul \<Rightarrow>
             if nodeName ul = ''UL'' then MenuBar_init newMenu firstChildOf ul this pg
             else Returned (this, pg))"

text \<open>\<open>stateWasUpdated\<close>, called with \<open>this.state\<close>.\<close>

definition stateWasUpdated :: "menuBar \<Rightarrow> page \<Rightarrow> (menuBar \<times> page) outcome" where
  "stateWasUpdated this pg =
     (case getPopupFromMenubarItem pg (menubarItem (barState this)) of
        Inl e \<Rightarrow> Threw e (this, pg)
      | Inr popup \<Rightarrow>
          (case menubarItem (barState this) of
             None \<Rightarrow> Threw TypeError (this, pg)
           | Some item \<Rightarrow>
               (let this1 = this\<lparr>barState := (barState this)\<lparr>statePopup := popup\<rparr>\<rparr>;
                    pg1 = rovingTabIndex (menuBarItems this) item pg;
                    pg2 = focus item pg1
                in Returned (this1, pg2))))"

text \<open>Modelled from the spec: \<open>AriaComponent.setState\<close> is not among the sources.
  "Common state container + pub-sub style onStateChange hook": the given fields are
  merged into \<open>this.state\<close> and \<open>stateWasUpdated\<close> runs on the result.\<close>

definition MenuBar_setState :: "element option \<Rightarrow> menuBar \<Rightarrow> page \<Rightarrow> (menuBar \<times> page) outcome" where
  "MenuBar_setState item this pg =
     stateWasUpdated (this\<lparr>barState := (barState this)\<lparr>menubarItem := item\<rparr>\<rparr>) pg"

text \<open>Modelled from the spec: \<open>this.typeAhead\<close> is not among the sources. "Type-ahead
  character search", on "a search string created by collecting key presses": the pressed
  character joins the search string, and the result is the first item the string matches
  (\<open>null\<close> when none does). What matching is the spec does not say: \<open>matches\<close>
  is a parameter.\<close>

definition typeAhead ::
  "(nat list \<Rightarrow> element \<Rightarrow> bool) \<Rightarrow> menuBar \<Rightarrow> nat \<Rightarrow> element list \<Rightarrow> element option \<times> menuBar" where
  "typeAhead matches this key items =
     (let search = searchString this @ [key]
      in (find (matches search) items, this\<lparr>searchString := search\<rparr>))"

text \<open>Modelled from the spec: \<open>nextPreviousFromLeftRight\<close> (\<open>lib/nextPrevious\<close>) is
  not among the sources. "Directional key-to-focus-target resolution": LEFT resolves to
  the item before the active one in the list and RIGHT to the item after it; the result
  is falsy (\<open>None\<close>) when the list has no such item.\<close>

definition nextPreviousFromLeftRight ::
  "nat \<Rightarrow> element option \<Rightarrow> element list \<Rightarrow> element option" where
  "nextPreviousFromLeftRight key active items =
     (let activeIndex = indexOf items active
      in if activeIndex < 0 then None
         else at items (if key = LEFT then activeIndex - 1 else activeIndex + 1))"

definition withEvent :: "event \<Rightarrow> (menuBar \<times> page) outcome \<Rightarrow> (event \<times> menuBar \<times> page) outcome" where
  "withEvent ev r =
     (case r of
        Returned (this, pg) \<Rightarrow> Returned (ev, this, pg)
      | Threw e (this, pg) \<Rightarrow> Threw e (ev, this, pg))"

text \<open>\<open>handleMenuBarKeydown\<close>. The resolver of LEFT and RIGHT it calls is the
  parameter \<open>nextPrevious\<close>, so that what the handler does with the resolved item is
  stated for any resolver; a falsy result is \<open>None\<close>. \<open>this.state.popup\<close> refers to a popup the page
  holds: the branch for one it does not hold is there for totality.\<close>

definition handleMenuBarKeydown ::
  "(nat \<Rightarrow> element option \<Rightarrow> element list \<Rightarrow> element option) \<Rightarrow>
   (nat list \<Rightarrow> element \<Rightarrow> bool) \<Rightarrow> menuBar \<Rightarrow> event \<Rightarrow> page \<Rightarrow>
     (event \<times> menuBar \<times> page) outcome" where
  "handleMenuBarKeydown nextPrevious matches this ev pg =
     (let item = menubarItem (barState this);
          popup = statePopup (barState this)
      in if keyCode ev = LEFT \<or> keyCode ev = RIGHT then
           (case nextPrevious (keyCode ev) item (menuBarItems this) of
              None \<Rightarrow> Returned (ev, this, pg)
            | Some nextItem \<Rightarrow>
                (let ev1 = preventDefault (stopPropagation ev);
                     pg1 = (case popup of
                              None \<Rightarrow> pg
                            | Some p \<Rightarrow> Popup_setExpanded p False pg)
                 in withEvent ev1 (MenuBar_setState (Some nextItem) this pg1)))
         else if keyCode ev = SPACE \<or> keyCode ev = RETURN \<or> keyCode ev = DOWN then
           (case popup of
              None \<Rightarrow> Returned (ev, this, pg)
            | Some p \<Rightarrow>
                (let ev1 = preventDefault (stopPropagation ev)
                 in case popupOf pg p of
                      None \<Rightarrow> Threw TypeError (ev1, this, pg)
                    | Some inst \<Rightarrow>
                        (let pg1 = (if \<not> expanded inst then Popup_setExpanded p True pg
                                    else pg)
                         in case firstChild inst of
                              None \<Rightarrow> Threw TypeError (ev1, this, pg1)
                            | Some c \<Rightarrow> Returned (ev1, this, focus c pg1))))
         else if keyCode ev = HOME then
           withEvent (preventDefault ev)
             (MenuBar_setState (at (menuBarItems this) 0) this pg)
         else if keyCode ev = END then
           withEvent (preventDefault ev)
             (MenuBar_setState (at (menuBarItems this) (lastIndex this)) this pg)
         else
           (case typeAhead matches this (keyCode ev) (menuBarItems this) of
              (None, this1) \<Rightarrow> Returned (ev, this1, pg)
            | (Some itemToFocus, this1) \<Rightarrow>
                withEvent ev (MenuBar_setState (Some itemToFocus) this1 pg)))"

text \<open>What a keydown on the menubar left behind: the event, the instance, the page.\<close>

definition eventAfter :: "(event \<times> menuBar \<times> page) outcome \<Rightarrow> event" where
  "eventAfter r = fst (reached r)"

definition barAfter :: "(event \<times> menuBar \<times> page) outcome \<Rightarrow> menuBar" where
  "barAfter r = fst (snd (reached r))"

definition pageAfter :: "(event \<times> menuBar \<times> page) outcome \<Rightarrow> page" where
  "pageAfter r = snd (snd (reached r))"

text \<open>\<open>handleMenuBarClick\<close>: \<open>event.target\<close> is the element the click landed on, the
  link or an element inside it.\<close>

definition handleMenuBarClick :: "element \<Rightarrow> menuBar \<Rightarrow> page \<Rightarrow> (menuBar \<times> page) outcome" where
  "handleMenuBarClick target this pg = MenuBar_setState (Some target) this pg"

section \<open>Dialog, and how a Popup is dismissed\<close>

text \<open>Modelled from the spec: the Dialog class is not among the sources, only its test
  is. "Dialog: modal focus trap, inert background, Tab/Shift+Tab wrap-around, overlay
  click-to-close." The test adds what \<open>show\<close> and \<open>hide\<close> do: \<open>aria-expanded\<close>
  on the controller, \<open>aria-hidden\<close> on the target and on the content behind it, focus
  on the close button when shown and back on the controller when hidden.
  \<open>interactive\<close> lists the focusable elements inside the target, in tab order.\<close>

record dialog =
  dialogController :: element
  dialogTarget :: element
  dialogClose :: element
  dialogContent :: element
  interactive :: "element list"
  visible :: bool

definition Dialog_setState :: "bool \<Rightarrow> dialog \<Rightarrow> page \<Rightarrow> dialog \<times> page" where
  "Dialog_setState v d pg =
     (let yes = Text ''true''; no = Text ''false'';
          pg1 = setAttribute (dialogController d) ''aria-expanded'' (if v then yes else no) pg;
          pg2 = setAttribute (dialogContent d) ''aria-hidden'' (if v then yes else no) pg1;
          pg3 = setAttribute (dialogTarget d) ''aria-hidden'' (if v then no else yes) pg2
      in (d\<lparr>visible := v\<rparr>,
          focus (if v then dialogClose d else dialogController d) pg3))"

definition Dialog_show :: "dialog \<Rightarrow> page \<Rightarrow> dialog \<times> page" where
  "Dialog_show d pg = Dialog_setState True d pg"

definition Dialog_hide :: "dialog \<Rightarrow> page \<Rightarrow> dialog \<times> page" where
  "Dialog_hide d pg = Dialog_setState False d pg"

text \<open>Modelled from the spec: the keydown handler on the target. Escape hides a visible
  dialog; Tab on the last focusable element and Shift+Tab on the first one wrap around,
  with the default action prevented; every other key is left to the browser.\<close>

definition Dialog_handleKeydown :: "dialog \<Rightarrow> event \<Rightarrow> page \<Rightarrow> event \<times> dialog \<times> page" where
  "Dialog_handleKeydown d ev pg =
     (if visible d \<and> keyCode ev = ESC then
        (let (d1, pg1) = Dialog_hide d pg in (stopPropagation ev, d1, pg1))
      else if visible d \<and> keyCode ev = TAB then
        (case (at (interactive d) 0, at (interactive d) (int (length (interactive d)) - 1)) of
           (Some first, Some final) \<Rightarrow>
             if shiftKey ev \<and> activeElement pg = Some first
             then (preventDefault ev, d, focus final pg)
             else if \<not> shiftKey ev \<and> activeElement pg = Some final
             then (preventDefault ev, d, focus first pg)
             else (ev, d, pg)
         | _ \<Rightarrow> (ev, d, pg))
      else (ev, d, pg))"

text \<open>Modelled from the spec: "overlay click-to-close".\<close>

definition Dialog_handleOverlayClick :: "dialog \<Rightarrow> page \<Rightarrow> dialog \<times> page" where
  "Dialog_handleOverlayClick d pg = (if visible d then Dialog_hide d pg else (d, pg))"

text \<open>The browser's own action for Tab and Shift+Tab, which runs when no handler
  prevented it: focus moves to the next (previous) element of the document's tab order,
  and out of the document past its ends.\<close>

definition browserTab :: "element list \<Rightarrow> bool \<Rightarrow> page \<Rightarrow> page" where
  "browserTab order shift pg =
     (let i = indexOf order (activeElement pg)
      in if i < 0 then pg
         else pg\<lparr>activeElement := at order (if shift then i - 1 else i + 1)\<rparr>)"

definition Dialog_pressTab :: "element list \<Rightarrow> bool \<Rightarrow> dialog \<Rightarrow> page \<Rightarrow> dialog \<times> page" where
  "Dialog_pressTab order shift d pg =
     (let ev = \<lparr>keyCode = TAB, shiftKey = shift, defaultPrevented = False,
                 propagationStopped = False\<rparr>;
          (ev1, d1, pg1) = Dialog_handleKeydown d ev pg
      in if defaultPrevented ev1 then (d1, pg1) else (d1, browserTab order shift pg1))"

text \<open>Modelled from the spec: a Popup "closes on outside click / Escape". A click is
  outside when it lands neither in the controller nor in the target.\<close>

definition Popup_handleKeydown :: "nat \<Rightarrow> event \<Rightarrow> page \<Rightarrow> event \<times> page" where
  "Popup_handleKeydown ref ev pg =
     (case popupOf pg ref of
        None \<Rightarrow> (ev, pg)
      | Some p \<Rightarrow>
          if expanded p \<and> keyCode ev = ESC then (stopPropagation ev, Popup_hide ref pg)
          else (ev, pg))"

definition Popup_handleOutsideClick :: "nat \<Rightarrow> element \<Rightarrow> page \<Rightarrow> page" where
  "Popup_handleOutsideClick ref clicked pg =
     (case popupOf pg ref of
        None \<Rightarrow> pg
      | Some p \<Rightarrow>
          if expanded p \<and> \<not> contains (popupController p) (Some clicked)
               \<and> \<not> contains (popupTarget p) (Some clicked)
          then Popup_hide ref pg
          else pg)"

section \<open>Sample pages\<close>

text \<open>A page no widget has touched yet, and a key press.\<close>

definition emptyPage :: page where
  "emptyPage = \<lparr>activeElement = None, attributes = (\<lambda>_. Map.empty), listeners = [],
     menuItemOf = (\<lambda>_. None), popupOf = (\<lambda>_. None), menuOf = (\<lambda>_. None)\<rparr>"

definition keydown :: "nat \<Rightarrow> event" where
  "keydown k = \<lparr>keyCode = k, shiftKey = False, defaultPrevented = False,
     propagationStopped = False\<rparr>"

text \<open>A menu list of three items: a link with a nested list of one link, a link alone,
  and an item that holds no link.\<close>

definition linkA :: element where "linkA = Element 3 ''A'' []"
definition linkB :: element where "linkB = Element 8 ''A'' []"
definition linkC :: element where "linkC = Element 6 ''A'' []"
definition subList :: element where "subList = Element 4 ''UL'' [Element 5 ''LI'' [linkC]]"

definition sampleList :: element where
  "sampleList = Element 1 ''UL''
     [Element 2 ''LI'' [linkA, subList],
      Element 7 ''LI'' [linkB],
      Element 9 ''LI'' [Element 10 ''SPAN'' []]]"

definition sampleItem :: menuItem where
  "sampleItem = \<lparr>itemList = sampleList, listItems = children sampleList,
     menuItems = [linkA, linkB], menuItemsLength = 2, firstItem = Some linkA,
     previousSibling = None\<rparr>"

text \<open>A menu list whose only item has a nested list without links.\<close>

definition bareSub :: element where
  "bareSub = Element 4 ''UL'' [Element 5 ''LI'' [Element 6 ''SPAN'' []]]"

definition bareList :: element where
  "bareList = Element 1 ''UL'' [Element 2 ''LI'' [linkA, bareSub]]"

text \<open>A menubar of two items; the first link wraps its label in a \<open>span\<close> and opens a
  nested list.\<close>

definition label :: element where "label = Element 4 ''SPAN'' []"
definition barLinkA :: element where "barLinkA = Element 3 ''A'' [label]"
definition barLinkB :: element where "barLinkB = Element 9 ''A'' []"
definition barSub :: element where
  "barSub = Element 5 ''UL'' [Element 6 ''LI'' [Element 7 ''A'' []]]"

definition sampleBar :: element where
  "sampleBar = Element 1 ''UL''
     [Element 2 ''LI'' [barLinkA, barSub], Element 8 ''LI'' [barLinkB]]"

text \<open>A Menu constructor for the samples: it collects the list's links and leaves the
  page alone.\<close>

definition sampleMenu :: menuConstructor where
  "sampleMenu ul pg =
     (\<lparr>menuFirstItem = at (collectLinks (children ul)) 0,
       menuLastItem = at (collectLinks (children ul)) (int (length (collectLinks (children ul))) - 1),
       menuPreviousSibling = None\<rparr>, pg)"

definition sampleFirstChild :: "element \<Rightarrow> element option" where
  "sampleFirstChild ul = at (collectLinks (children ul)) 0"

definition bareItem :: menuItem where
  "bareItem = \<lparr>itemList = bareList, listItems = children bareList, menuItems = [linkA],
     menuItemsLength = 1, firstItem = Some linkA, previousSibling = None\<rparr>"

definition subItem :: menuItem where
  "subItem = \<lparr>itemList = subList, listItems = children subList, menuItems = [linkC],
     menuItemsLength = 1, firstItem = Some linkC, previousSibling = Some linkA\<rparr>"

text \<open>A menu button over the sample list, and one over a \<open>div\<close> with no menu.\<close>

definition button :: element where "button = Element 20 ''BUTTON'' []"
definition wrapper :: element where "wrapper = Element 21 ''DIV'' [sampleList]"

definition listButton :: "menuButton \<times> page" where
  "listButton =
     MenuButton_new sampleMenu sampleFirstChild (Some button) (Some sampleList) None emptyPage"

definition divButton :: "menuButton \<times> page" where
  "divButton =
     MenuButton_new sampleMenu sampleFirstChild (Some button) (Some wrapper) None emptyPage"

text \<open>The menubar over the sample, and a resolver of LEFT and RIGHT for the samples:
  the neighbour in the list, none past its ends.\<close>

definition sampleBarInit :: "(menuBar \<times> page) outcome" where
  "sampleBarInit = MenuBar_new sampleMenu sampleFirstChild (Some sampleBar) emptyPage"

definition neighbour :: "nat \<Rightarrow> element option \<Rightarrow> element list \<Rightarrow> element option" where
  "neighbour key item items =
     at items (indexOf items item + (if key = LEFT then - 1 else 1))"

text \<open>Labels for the two menubar links ("FILE", "EDIT", as character codes), and a
  matcher for the samples: the search string starts the label.\<close>

definition sampleLabel :: "element \<Rightarrow> nat list" where
  "sampleLabel e =
     (if e = barLinkA then [70, 73, 76, 69] else if e = barLinkB then [69, 68, 73, 84] else [])"

definition sampleMatches :: "nat list \<Rightarrow> element \<Rightarrow> bool" where
  "sampleMatches s e = (s \<noteq> [] \<and> take (length s) (sampleLabel e) = s)"

text \<open>A MenuBar instance as the constructor has it before \<open>init\<close>.\<close>

definition blankBar :: "element \<Rightarrow> menuBar" where
  "blankBar ul = \<lparr>menuBarMenu = Some ul, menuBarChildren = [], menuBarItems = [],
     menuLength = 0, lastIndex = 0, popups = [],
     barState = \<lparr>menubarItem = None, statePopup = None\<rparr>, searchString = []\<rparr>"

text \<open>The page of \<open>Dialog.test.js\<close>: the article with the link that opens the
  dialog, and the dialog with its close button and a list of four links.\<close>

definition opener :: element where "opener = Element 33 ''A'' []"

definition content :: element where
  "content = Element 30 ''MAIN''
     [Element 31 ''ARTICLE'' [Element 32 ''H1'' [], Element 34 ''P'' [], opener]]"

definition closeButton :: element where "closeButton = Element 41 ''BUTTON'' []"
definition item1 :: element where "item1 = Element 44 ''A'' []"
definition item2 :: element where "item2 = Element 46 ''A'' []"
definition item3 :: element where "item3 = Element 48 ''A'' []"
definition lastItem :: element where "lastItem = Element 50 ''A'' []"

definition dialogElement :: element where
  "dialogElement = Element 40 ''DIV''
     [closeButton,
      Element 42 ''UL''
        [Element 43 ''LI'' [item1], Element 45 ''LI'' [item2], Element 47 ''LI'' [item3],
         Element 49 ''LI'' [lastItem]]]"

definition modal :: dialog where
  "modal = \<lparr>dialogController = opener, dialogTarget = dialogElement,
     dialogClose = closeButton, dialogContent = content,
     interactive = [closeButton, item1, item2, item3, lastItem], visible = False\<rparr>"

definition pageOrder :: "element list" where
  "pageOrder = [opener, closeButton, item1, item2, item3, lastItem]"

text \<open>A menu button whose \<open>menu\<close> option is an element that is no list, over a
  target that is no list either.\<close>

definition panel :: element where "panel = Element 22 ''DIV'' []"

definition panelButton :: "menuButton \<times> page" where
  "panelButton =
     MenuButton_new sampleMenu sampleFirstChild (Some button) (Some wrapper) (Some panel)
       emptyPage"

section \<open>MenuItem.init: what the recursion writes, and where\<close>

lemma nextIn_mem: "nextIn cs e = Some s \<Longrightarrow> e \<in> set cs \<and> s \<in> set cs"
  by (induction cs e rule: nextIn.induct) (auto split: if_splits)

lemma descendants_self: "e \<in> set (descendants e)"
  by (cases e) simp

lemma descendants_trans:
  "s \<in> set (descendants r) \<Longrightarrow> x \<in> set (descendants s) \<Longrightarrow> x \<in> set (descendants r)"
  by (induction r) auto

lemma child_descendant: "c \<in> set (children r) \<Longrightarrow> c \<in> set (descendants r)"
  by (cases r) (auto intro: descendants_self)

lemma sibling_descendant:
  "\<forall>s. nextElementSibling root e = Some s \<longrightarrow>
     e \<in> set (descendants root) \<and> s \<in> set (descendants root)"
  "\<forall>s. nextElementSiblingAmong cs e = Some s \<longrightarrow>
     (\<exists>c\<in>set cs. e \<in> set (descendants c) \<and> s \<in> set (descendants c))"
  by (induction root e and cs e rule: nextElementSibling_nextElementSiblingAmong.induct)
    (auto split: option.splits if_splits dest!: nextIn_mem intro: descendants_self)

lemma ids_Element: "ids (Element i n cs) = i # concat (map ids cs)"
  unfolding ids_def [abs_def] by (simp add: map_concat comp_def)

lemma eid_in_ids: "x \<in> set (descendants r) \<Longrightarrow> eid x \<in> set (ids r)"
  by (simp add: ids_def)

lemma ids_subset: "s \<in> set (descendants r) \<Longrightarrow> set (ids s) \<subseteq> set (ids r)"
  by (auto simp: ids_def dest: descendants_trans)

lemma collectLinks_sub:
  "a \<in> set (collectLinks cs) \<Longrightarrow> \<exists>item\<in>set cs. \<exists>others. children item = a # others"
  by (induction cs) (auto simp: firstElementChild_def split: option.splits list.splits if_splits)

lemma collectLinks_descendants:
  "a \<in> set (collectLinks (children r)) \<Longrightarrow> a \<in> set (descendants r)"
proof -
  assume "a \<in> set (collectLinks (children r))"
  then obtain item others where "item \<in> set (children r)" "children item = a # others"
    by (blast dest: collectLinks_sub)
  then have "item \<in> set (descendants r)" "a \<in> set (descendants item)"
    by (auto intro: child_descendant)
  then show ?thesis by (rule descendants_trans)
qed

lemma attributes_setPreviousSibling [simp]:
  "attributes (setPreviousSibling s l pg) = attributes pg"
  by (simp add: setPreviousSibling_def split: option.splits)

lemma MenuItem_frame:
  "\<forall>k. k \<notin> set (ids list) \<longrightarrow> attributes (MenuItem_new list pg) k = attributes pg k"
  "\<forall>k. k \<notin> eid ` set links \<and>
        (\<forall>link\<in>set links. \<forall>s. nextElementIsUl list link = Some s \<longrightarrow> k \<notin> set (ids s)) \<longrightarrow>
        attributes (MenuItem_forEach list n links index pg) k = attributes pg k"
proof (induction list pg and list n links index pg rule: MenuItem_new_MenuItem_forEach.induct)
  case (1 list pg)
  show ?case
  proof (intro allI impI)
    fix k assume k: "k \<notin> set (ids list)"
    let ?links = "collectLinks (children list)"
    have a: "k \<notin> eid ` set ?links"
      using k by (auto dest!: collectLinks_descendants eid_in_ids)
    have b: "\<forall>link\<in>set ?links. \<forall>s. nextElementIsUl list link = Some s \<longrightarrow> k \<notin> set (ids s)"
    proof (intro ballI allI impI)
      fix link s assume "nextElementIsUl list link = Some s"
      then have "nextElementSibling list link = Some s"
        by (auto simp: nextElementIsUl_def split: option.splits if_splits)
      then have "s \<in> set (descendants list)" using sibling_descendant(1) by blast
      then show "k \<notin> set (ids s)" using k ids_subset by blast
    qed
    from 1 [OF refl refl refl refl] a b
    show "attributes (MenuItem_new list pg) k = attributes pg k"
      by (simp add: MenuItem_new.simps Let_def split: option.splits)
  qed
next
  case (2 list n index pg)
  show ?case by simp
next
  case (3 list n link rest index pg)
  define pg4 where "pg4 = addEventListener link ''keydown'' (HandleListKeydown (eid list))
    (setAttribute link ''aria-posinset'' (Number (index + 1))
      (setAttribute link ''aria-setsize'' (Number n)
        (setAttribute link ''aria-describedby'' (Text describedBy) pg)))"
  define pg5 where "pg5 = (case nextElementIsUl list link of None \<Rightarrow> pg4
    | Some siblingList \<Rightarrow> setPreviousSibling siblingList link (MenuItem_new siblingList pg4))"
  have step: "MenuItem_forEach list n (link # rest) index pg
      = MenuItem_forEach list n rest (index + 1) pg5"
    unfolding pg5_def pg4_def by (simp only: MenuItem_forEach.simps Let_def)
  note IH1 = "3.IH"(1) [OF refl refl refl refl, folded pg4_def]
  note IH2 = "3.IH"(2) [OF refl refl refl refl refl, folded pg4_def, folded pg5_def]
  show ?case
  proof (intro allI impI)
    fix k
    assume k: "k \<notin> eid ` set (link # rest) \<and>
        (\<forall>l\<in>set (link # rest). \<forall>s. nextElementIsUl list l = Some s \<longrightarrow> k \<notin> set (ids s))"
    have "attributes pg4 k = attributes pg k"
      using k by (simp add: pg4_def setAttribute_def addEventListener_def)
    moreover have "attributes pg5 k = attributes pg4 k"
      using k IH1 by (auto simp: pg5_def split: option.splits)
    moreover have "attributes (MenuItem_forEach list n rest (index + 1) pg5) k = attributes pg5 k"
      using k IH2 by simp
    ultimately show "attributes (MenuItem_forEach list n (link # rest) index pg) k = attributes pg k"
      unfolding step by simp
  qed
qed

lemma not_descendant_no_sibling:
  "e \<notin> set (descendants root) \<Longrightarrow> nextElementSibling root e = None"
  using sibling_descendant(1) [of root e] by (cases "nextElementSibling root e") auto

lemma not_descendant_no_sibling_among:
  "\<forall>c\<in>set cs. e \<notin> set (descendants c) \<Longrightarrow> nextElementSiblingAmong cs e = None"
  using sibling_descendant(2) [of cs e] by (cases "nextElementSiblingAmong cs e") auto

lemma ids_disjoint:
  "distinct (concat (map ids cs)) \<Longrightarrow> x \<in> set cs \<Longrightarrow> y \<in> set cs \<Longrightarrow> x \<noteq> y \<Longrightarrow>
     set (ids x) \<inter> set (ids y) = {}"
  by (induction cs) auto

lemma ids_distinct_child:
  "distinct (concat (map ids cs)) \<Longrightarrow> x \<in> set cs \<Longrightarrow> distinct (ids x)"
  by (induction cs) auto

lemma child_neq: "children item = a # others \<Longrightarrow> a \<noteq> item"
proof
  assume c: "children item = a # others" and "a = item"
  have "size a < size item" using c by (cases item) auto
  with \<open>a = item\<close> show False by simp
qed

lemma first_child_ids: "children item = a # others \<Longrightarrow> eid a \<in> set (ids item)"
  by (cases item) (auto simp: ids_Element ids_def intro: descendants_self)

lemma sibling_of_first_child_among:
  assumes "distinct (concat (map ids cs))" "item \<in> set cs" "children item = a # others"
  shows "nextElementSiblingAmong cs a = (case others of [] \<Rightarrow> None | s # _ \<Rightarrow> Some s)"
  using assms(1,2)
proof (induction cs)
  case Nil
  then show ?case by simp
next
  case (Cons c cs)
  show ?case
  proof (cases "c = item")
    case True
    have here: "nextElementSibling c a = (case others of [] \<Rightarrow> None | s # _ \<Rightarrow> Some s)"
      using True assms(3) by (cases c) (auto split: list.splits)
    have rest: "nextElementSiblingAmong cs a = None"
    proof (rule not_descendant_no_sibling_among, rule ballI)
      fix c' assume c': "c' \<in> set cs"
      have "eid a \<in> set (ids c)" using True assms(3) by (simp add: first_child_ids)
      moreover have "set (ids c) \<inter> set (ids c') = {}"
        using Cons.prems(1) c' by auto
      ultimately show "a \<notin> set (descendants c')" by (auto dest: eid_in_ids)
    qed
    show ?thesis using here rest by (simp split: list.splits)
  next
    case False
    then have mem: "item \<in> set cs" using Cons.prems(2) by simp
    have "eid a \<in> set (ids item)" using assms(3) by (simp add: first_child_ids)
    moreover have "set (ids c) \<inter> set (ids item) = {}"
      using Cons.prems(1) mem by auto
    ultimately have "a \<notin> set (descendants c)" by (auto dest: eid_in_ids)
    then have "nextElementSibling c a = None" by (rule not_descendant_no_sibling)
    moreover have "nextElementSiblingAmong cs a = (case others of [] \<Rightarrow> None | s # _ \<Rightarrow> Some s)"
      using Cons.IH Cons.prems(1) mem by simp
    ultimately show ?thesis by simp
  qed
qed

lemma sibling_of_first_child:
  assumes "distinct (ids list)" "item \<in> set (children list)" "children item = a # others"
  shows "nextElementSibling list a = (case others of [] \<Rightarrow> None | s # _ \<Rightarrow> Some s)"
proof (cases list)
  case (Element i n cs)
  have d: "distinct (concat (map ids cs))" and item: "item \<in> set cs"
    using assms(1,2) Element by (simp_all add: ids_Element)
  have "a \<notin> set cs"
  proof
    assume "a \<in> set cs"
    then have "set (ids a) \<inter> set (ids item) = {}"
      using ids_disjoint [OF d _ item child_neq [OF assms(3)]] by simp
    moreover have "eid a \<in> set (ids a)" by (simp add: eid_in_ids descendants_self)
    moreover have "eid a \<in> set (ids item)" using assms(3) by (rule first_child_ids)
    ultimately show False by blast
  qed
  then show ?thesis
    using Element sibling_of_first_child_among [OF d item assms(3)] by simp
qed

lemma collectLinks_ids:
  "a \<in> set (collectLinks cs) \<Longrightarrow> \<exists>item\<in>set cs. eid a \<in> set (ids item)"
  by (blast dest: collectLinks_sub first_child_ids)

lemma collectLinks_distinct:
  "distinct (concat (map ids cs)) \<Longrightarrow> distinct (map eid (collectLinks cs))"
proof (induction cs)
  case Nil
  then show ?case by simp
next
  case (Cons c cs)
  have tl: "distinct (map eid (collectLinks cs))" using Cons by simp
  have fresh: "eid a \<notin> eid ` set (collectLinks cs)" if "children c = a # others" for a others
  proof
    assume "eid a \<in> eid ` set (collectLinks cs)"
    then obtain b where b: "b \<in> set (collectLinks cs)" "eid b = eid a" by auto
    then obtain item where "item \<in> set cs" "eid a \<in> set (ids item)"
      using collectLinks_ids by metis
    moreover have "eid a \<in> set (ids c)" using that by (rule first_child_ids)
    ultimately show False using Cons.prems by auto
  qed
  show ?case using tl fresh
    by (auto simp: firstElementChild_def split: list.splits)
qed

lemma links_apart:
  assumes d: "distinct (ids list)"
    and a: "a \<in> set (collectLinks (children list))"
    and b: "b \<in> set (collectLinks (children list))"
    and s: "nextElementIsUl list a = Some s"
  shows "eid b \<notin> set (ids s)"
proof -
  obtain i n cs where list: "list = Element i n cs" by (cases list)
  have dc: "distinct (concat (map ids cs))" using d list by (simp add: ids_Element)
  obtain ia oa where ia: "ia \<in> set cs" "children ia = a # oa"
    using a list collectLinks_sub by fastforce
  obtain ib ob where ib: "ib \<in> set cs" "children ib = b # ob"
    using b list collectLinks_sub by fastforce
  have "nextElementSibling list a = Some s"
    using s by (auto simp: nextElementIsUl_def split: option.splits if_splits)
  then have "(case oa of [] \<Rightarrow> None | x # _ \<Rightarrow> Some x) = Some s"
    using sibling_of_first_child [OF d _ ia(2)] ia(1) list by simp
  then obtain oa' where oa: "oa = s # oa'" by (cases oa) auto
  obtain j m where iaE: "ia = Element j m (a # s # oa')"
    using ia(2) oa by (cases ia) auto
  have dia: "distinct (ids ia)" using dc ia(1) by (rule ids_distinct_child)
  have s_in: "set (ids s) \<subseteq> set (ids ia)" by (auto simp: iaE ids_Element)
  show ?thesis
  proof (cases "ia = ib")
    case True
    then have "b = a" using ia(2) ib(2) by simp
    moreover have "eid a \<in> set (ids a)" by (simp add: eid_in_ids descendants_self)
    moreover have "set (ids a) \<inter> set (ids s) = {}"
      using dia by (auto simp: iaE ids_Element)
    ultimately show ?thesis by blast
  next
    case False
    then have "set (ids ia) \<inter> set (ids ib) = {}"
      using ids_disjoint [OF dc ia(1) ib(1)] by simp
    moreover have "eid b \<in> set (ids ib)" using ib(2) by (rule first_child_ids)
    ultimately show ?thesis using s_in by blast
  qed
qed

lemma forEach_attrs:
  assumes "distinct (map eid links)"
    and "\<forall>a\<in>set links. \<forall>b\<in>set links. \<forall>s.
           nextElementIsUl list a = Some s \<longrightarrow> eid b \<notin> set (ids s)"
    and "j < length links"
  shows "attributes (MenuItem_forEach list n links index pg) (eid (links ! j)) ''aria-setsize''
           = Some (Number n)
       \<and> attributes (MenuItem_forEach list n links index pg) (eid (links ! j)) ''aria-posinset''
           = Some (Number (index + j + 1))"
  using assms
proof (induction links arbitrary: index pg j)
  case Nil
  then show ?case by simp
next
  case (Cons link rest)
  define pg4 where "pg4 = addEventListener link ''keydown'' (HandleListKeydown (eid list))
    (setAttribute link ''aria-posinset'' (Number (index + 1))
      (setAttribute link ''aria-setsize'' (Number n)
        (setAttribute link ''aria-describedby'' (Text describedBy) pg)))"
  define pg5 where "pg5 = (case nextElementIsUl list link of None \<Rightarrow> pg4
    | Some siblingList \<Rightarrow> setPreviousSibling siblingList link (MenuItem_new siblingList pg4))"
  have step: "MenuItem_forEach list n (link # rest) index pg
      = MenuItem_forEach list n rest (index + 1) pg5"
    unfolding pg5_def pg4_def by (simp only: MenuItem_forEach.simps Let_def)
  show ?case
  proof (cases j)
    case 0
    have "attributes (MenuItem_forEach list n rest (index + 1) pg5) (eid link)
            = attributes pg5 (eid link)"
      using MenuItem_frame(2) [of rest list n "index + 1" pg5] Cons.prems(1,2) by auto
    moreover have "attributes pg5 (eid link) = attributes pg4 (eid link)"
      using MenuItem_frame(1) Cons.prems(2) by (auto simp: pg5_def split: option.splits)
    moreover have "attributes pg4 (eid link) ''aria-setsize'' = Some (Number n)"
      "attributes pg4 (eid link) ''aria-posinset'' = Some (Number (index + 1))"
      by (simp_all add: pg4_def setAttribute_def addEventListener_def)
    ultimately show ?thesis using 0 step by simp
  next
    case (Suc j')
    have "attributes (MenuItem_forEach list n rest (index + 1) pg5) (eid (rest ! j')) ''aria-setsize''
           = Some (Number n)
       \<and> attributes (MenuItem_forEach list n rest (index + 1) pg5) (eid (rest ! j')) ''aria-posinset''
           = Some (Number (index + 1 + j' + 1))"
      using Cons.prems Suc by (intro Cons.IH) auto
    then show ?thesis using Suc step by simp
  qed
qed

lemma MenuItem_new_attributes:
  "attributes (MenuItem_new list pg) =
   attributes (MenuItem_forEach list (length (collectLinks (children list)))
      (collectLinks (children list)) 0
      (pg\<lparr>menuItemOf := (menuItemOf pg)(eid list \<mapsto>
         \<lparr>itemList = list, listItems = children list,
          menuItems = collectLinks (children list),
          menuItemsLength = length (collectLinks (children list)), firstItem = None,
          previousSibling = None\<rparr>)\<rparr>))"
  by (simp add: MenuItem_new.simps Let_def split: option.splits)

lemma MenuItem_init_sets_size_and_position:
  assumes "distinct (ids list)" and "j < length (collectLinks (children list))"
  shows "getAttribute (MenuItem_new list pg) (collectLinks (children list) ! j) ''aria-setsize''
           = Some (Number (length (collectLinks (children list))))
       \<and> getAttribute (MenuItem_new list pg) (collectLinks (children list) ! j) ''aria-posinset''
           = Some (Number (j + 1))"
proof -
  have "distinct (map eid (collectLinks (children list)))"
    using assms(1) by (cases list) (simp add: ids_Element collectLinks_distinct)
  moreover have "\<forall>a\<in>set (collectLinks (children list)). \<forall>b\<in>set (collectLinks (children list)). \<forall>s.
           nextElementIsUl list a = Some s \<longrightarrow> eid b \<notin> set (ids s)"
    using links_apart [OF assms(1)] by blast
  ultimately show ?thesis
    unfolding getAttribute_def MenuItem_new_attributes
    using forEach_attrs [where index = 0 and j = j] assms(2) by simp
qed

section \<open>MenuItem and MenuButton key handling\<close>

lemma indexFrom_nth:
  "distinct xs \<Longrightarrow> i < length xs \<Longrightarrow> indexFrom xs (xs ! i) k = k + int i"
proof (induction xs arbitrary: i k)
  case Nil
  then show ?case by simp
next
  case (Cons y ys)
  show ?case
  proof (cases i)
    case 0
    then show ?thesis by simp
  next
    case (Suc j)
    then have "ys ! j \<noteq> y" using Cons.prems by auto
    then show ?thesis using Suc Cons by simp
  qed
qed

lemma indexOf_nth:
  "distinct xs \<Longrightarrow> i < length xs \<Longrightarrow> indexOf xs (Some (xs ! i)) = int i"
  by (simp add: indexOf_def indexFrom_nth)

lemma keys_distinct:
  "UP \<noteq> DOWN" "UP \<noteq> LEFT" "UP \<noteq> RIGHT" "DOWN \<noteq> LEFT" "DOWN \<noteq> RIGHT" "LEFT \<noteq> RIGHT"
  by (simp_all add: UP_def DOWN_def LEFT_def RIGHT_def)

text \<open>C2. With the active item at index i of the collected links (the focused element when the
  list contains it, the first link otherwise), a DOWN keydown moves focus to the link
  after it and from the last link to the first, an UP keydown moves focus to the link
  before it and from the first link to the last; both stop the event's propagation and
  prevent its default action.\<close>

theorem MenuItem_vertical_arrows_wrap:
  assumes "distinct (menuItems this)"
    and "i < length (menuItems this)"
    and "activeDescendant this pg = Some (menuItems this ! i)"
  shows "(keyCode ev = DOWN \<longrightarrow>
            handleListKeydown doc this ev pg =
              Returned (preventDefault (stopPropagation ev),
                focus (menuItems this ! ((i + 1) mod length (menuItems this))) pg))
       \<and> (keyCode ev = UP \<longrightarrow>
            handleListKeydown doc this ev pg =
              Returned (preventDefault (stopPropagation ev),
                focus (menuItems this ! ((i + length (menuItems this) - 1) mod length (menuItems this))) pg))
       \<and> defaultPrevented (preventDefault (stopPropagation ev))
       \<and> propagationStopped (preventDefault (stopPropagation ev))"
proof -
  let ?n = "length (menuItems this)"
  have idx: "indexOf (menuItems this) (activeDescendant this pg) = int i"
    using assms by (simp add: indexOf_nth)
  have keys: "UP \<noteq> DOWN" "DOWN \<noteq> UP"
    by (simp_all add: UP_def DOWN_def)
  have down: "handleListKeydown doc this ev pg =
      Returned (preventDefault (stopPropagation ev), focus (menuItems this ! ((i + 1) mod ?n)) pg)"
    if k: "keyCode ev = DOWN"
  proof (cases "i + 1 = ?n")
    case True
    then have "(i + 1) mod ?n = 0" "int ?n - 1 < int i + 1" "0 < ?n" by auto
    then show ?thesis
      using k keys by (simp add: handleListKeydown_def Let_def idx at_def)
  next
    case False
    then have lt: "i + 1 < ?n" using assms(2) by simp
    then have "(i + 1) mod ?n = i + 1" "\<not> int ?n - 1 < int i + 1" "nat (int i + 1) = i + 1"
      by simp_all
    then show ?thesis
      using k keys lt by (simp add: handleListKeydown_def Let_def idx at_def)
  qed
  have up: "handleListKeydown doc this ev pg =
      Returned (preventDefault (stopPropagation ev),
        focus (menuItems this ! ((i + ?n - 1) mod ?n)) pg)"
    if k: "keyCode ev = UP"
  proof (cases i)
    case 0
    then have "(i + ?n - 1) mod ?n = ?n - 1" "nat (int ?n - 1) = ?n - 1" "0 < ?n"
      using assms(2) by simp_all
    then show ?thesis
      using k keys 0 by (simp add: handleListKeydown_def Let_def idx at_def)
  next
    case (Suc j)
    then have "(i + ?n - 1) mod ?n = j" "j < ?n" using assms(2) by simp_all
    then show ?thesis
      using k keys Suc by (simp add: handleListKeydown_def Let_def idx at_def)
  qed
  show ?thesis
    using down up by (simp add: preventDefault_def stopPropagation_def)
qed

text \<open>C4. Amended: on a RIGHT keydown, when the active item's next element sibling is a UL
  that carries a MenuItem instance and that instance has a first item, focus moves to that
  first item; on a LEFT keydown, when the list has a previousSibling, focus moves to it,
  and a Popup saved on it that is expanded is first set to not expanded.\<close>

theorem MenuItem_right_and_left_keys:
  "(keyCode ev = RIGHT \<and> activeDescendant this pg = Some a
      \<and> nextElementIsUl doc a = Some sub \<and> menuItemOf pg (eid sub) = Some inst
      \<and> firstItem inst = Some first \<longrightarrow>
      handleListKeydown doc this ev pg =
        Returned (preventDefault (stopPropagation ev), focus first pg))
   \<and> (keyCode ev = LEFT \<and> previousSibling this = Some prev \<longrightarrow>
      handleListKeydown doc this ev pg =
        Returned (preventDefault (stopPropagation ev),
          focus prev
            (case popupOf pg (eid prev) of
               None \<Rightarrow> pg
             | Some p \<Rightarrow> if expanded p then Popup_setExpanded (eid prev) False pg else pg))
      \<and> activeElement (snd (reached (handleListKeydown doc this ev pg))) = Some prev
      \<and> (\<forall>p. popupOf pg (eid prev) = Some p \<and> expanded p \<longrightarrow>
            map_option expanded
              (popupOf (snd (reached (handleListKeydown doc this ev pg))) (eid prev))
            = Some False))"
proof -
  have keys: "RIGHT \<noteq> UP" "RIGHT \<noteq> DOWN" "LEFT \<noteq> UP" "LEFT \<noteq> DOWN" "LEFT \<noteq> RIGHT"
    by (simp_all add: UP_def DOWN_def LEFT_def RIGHT_def)
  have popup_kept: "popupOf (setAttribute e n v q) = popupOf q" for e n v q
    by (simp add: setAttribute_def)
  show ?thesis
    using keys
    by (auto simp: handleListKeydown_def Let_def focus_def Popup_setExpanded_def popup_kept
        split: option.splits)
qed

text \<open>C5. On a MenuButton whose popup exists, a RETURN, SPACE or DOWN keydown prevents the
  default action, shows the popup and moves focus to the menu's first item when there is
  one; an UP keydown does the same with the menu's last item; every other key returns the
  event and the page as they were.\<close>

theorem MenuButton_open_and_focus:
  assumes "buttonPopup this = Some ref" and "popupOf pg ref = Some p"
  shows "(keyCode ev \<in> {RETURN, SPACE, DOWN} \<longrightarrow>
            defaultPrevented (fst (reached (handleControllerKeydown this ev pg)))
          \<and> map_option expanded
                (popupOf (snd (reached (handleControllerKeydown this ev pg))) ref) = Some True
          \<and> activeElement (snd (reached (handleControllerKeydown this ev pg))) =
                (case buttonMenu this of
                   MenuInstance m \<Rightarrow>
                     (case menuFirstItem m of None \<Rightarrow> activeElement pg | Some f \<Rightarrow> Some f)
                 | _ \<Rightarrow> activeElement pg))
       \<and> (keyCode ev = UP \<longrightarrow>
            defaultPrevented (fst (reached (handleControllerKeydown this ev pg)))
          \<and> map_option expanded
                (popupOf (snd (reached (handleControllerKeydown this ev pg))) ref) = Some True
          \<and> activeElement (snd (reached (handleControllerKeydown this ev pg))) =
                (case buttonMenu this of
                   MenuInstance m \<Rightarrow>
                     (case menuLastItem m of None \<Rightarrow> activeElement pg | Some l \<Rightarrow> Some l)
                 | _ \<Rightarrow> activeElement pg))
       \<and> (keyCode ev \<notin> {RETURN, SPACE, DOWN, UP} \<longrightarrow>
            handleControllerKeydown this ev pg = Returned (ev, pg))"
proof -
  have keys: "UP \<noteq> RETURN" "UP \<noteq> SPACE" "UP \<noteq> DOWN"
    by (simp_all add: UP_def DOWN_def RETURN_def SPACE_def)
  define shown where "shown = Popup_show ref pg"
  have shown: "map_option expanded (popupOf shown ref) = Some True"
    "activeElement shown = activeElement pg"
    using assms(2)
    by (simp_all add: shown_def Popup_show_def Popup_setExpanded_def Let_def setAttribute_def)
  have first: "reached (focusItem (readFirstItem (buttonMenu this)) e shown) =
      (e, case buttonMenu this of
            MenuInstance m \<Rightarrow> (case menuFirstItem m of None \<Rightarrow> shown | Some f \<Rightarrow> focus f shown)
          | _ \<Rightarrow> shown)" for e
    by (simp add: focusItem_def readFirstItem_def split: menuRef.splits option.splits)
  have final: "reached (focusItem (readLastItem (buttonMenu this)) e shown) =
      (e, case buttonMenu this of
            MenuInstance m \<Rightarrow> (case menuLastItem m of None \<Rightarrow> shown | Some f \<Rightarrow> focus f shown)
          | _ \<Rightarrow> shown)" for e
    by (simp add: focusItem_def readLastItem_def split: menuRef.splits option.splits)
  have run: "MenuButton_show this pg = Returned shown"
    using assms(1) by (simp add: MenuButton_show_def shown_def)
  show ?thesis
    using keys shown
    by (auto simp: handleControllerKeydown_def Let_def run first final preventDefault_def
        focus_def split: menuRef.splits option.splits)
qed

lemma keydown_with_menu_returns:
  "buttonPopup t = Some r \<Longrightarrow> buttonMenu t = MenuInstance inst \<Longrightarrow>
     \<not> faulted (handleControllerKeydown t ev pgx)"
  by (simp add: handleControllerKeydown_def MenuButton_show_def focusItem_def readFirstItem_def
      readLastItem_def Let_def split: option.splits)

lemma keydown_without_menu_throws:
  "buttonMenu t = MenuNull \<Longrightarrow> keyCode ev \<in> {RETURN, SPACE, UP, DOWN} \<Longrightarrow>
     faulted (handleControllerKeydown t ev pgx)"
  by (auto simp: handleControllerKeydown_def MenuButton_show_def focusItem_def readFirstItem_def
      readLastItem_def Let_def split: option.splits)

lemma initMenu_popup:
  "MenuButton_initMenu newMenu target t q = (t', q') \<Longrightarrow> buttonPopup t' = buttonPopup t"
  by (auto simp: MenuButton_initMenu_def Let_def split: menuRef.splits if_splits prod.splits)

lemma initMenu_menu:
  "MenuButton_initMenu newMenu target t q = (t', q') \<Longrightarrow>
   buttonMenu t' =
     (case buttonMenu t of
        MenuElement m \<Rightarrow>
          if nodeName m = ''UL'' then MenuInstance (fst (newMenu m q))
          else if nodeName target = ''UL'' then MenuInstance (fst (newMenu target q))
          else buttonMenu t
      | _ \<Rightarrow>
          if nodeName target = ''UL'' then MenuInstance (fst (newMenu target q))
          else buttonMenu t)"
  by (auto simp: MenuButton_initMenu_def Let_def split: menuRef.splits if_splits prod.splits)

lemma keydown_reads_menu:
  assumes "buttonPopup t = Some r"
  shows "keyCode ev \<in> {RETURN, SPACE, DOWN} \<Longrightarrow>
           handleControllerKeydown t ev pgx =
             focusItem (readFirstItem (buttonMenu t)) (preventDefault ev) (Popup_show r pgx)"
    and "keyCode ev = UP \<Longrightarrow>
           handleControllerKeydown t ev pgx =
             focusItem (readLastItem (buttonMenu t)) (preventDefault ev) (Popup_show r pgx)"
proof -
  have keys: "UP \<noteq> RETURN" "UP \<noteq> SPACE" "UP \<noteq> DOWN"
    by (simp_all add: UP_def DOWN_def RETURN_def SPACE_def)
  show "keyCode ev \<in> {RETURN, SPACE, DOWN} \<Longrightarrow>
           handleControllerKeydown t ev pgx =
             focusItem (readFirstItem (buttonMenu t)) (preventDefault ev) (Popup_show r pgx)"
    using assms by (simp add: handleControllerKeydown_def MenuButton_show_def Let_def)
  show "keyCode ev = UP \<Longrightarrow>
           handleControllerKeydown t ev pgx =
             focusItem (readLastItem (buttonMenu t)) (preventDefault ev) (Popup_show r pgx)"
    using assms keys by (simp add: handleControllerKeydown_def MenuButton_show_def Let_def)
qed

lemma keydown_null_menu:
  assumes "buttonPopup t = Some r" and "buttonMenu t = MenuNull"
    and "keyCode ev \<in> {RETURN, SPACE, UP, DOWN}"
  shows "handleControllerKeydown t ev pgx = Threw TypeError (preventDefault ev, Popup_show r pgx)"
proof (cases "keyCode ev = UP")
  case True
  then show ?thesis
    using keydown_reads_menu(2) [OF assms(1) True] assms(2)
    by (simp add: focusItem_def readLastItem_def)
next
  case False
  then have "keyCode ev \<in> {RETURN, SPACE, DOWN}" using assms(3) by auto
  then show ?thesis
    using keydown_reads_menu(1) [OF assms(1)] assms(2)
    by (simp add: focusItem_def readFirstItem_def)
qed

lemma keydown_element_menu:
  assumes "buttonPopup t = Some r" and "buttonMenu t = MenuElement m"
    and "keyCode ev \<in> {RETURN, SPACE, UP, DOWN}"
  shows "handleControllerKeydown t ev pgx = Returned (preventDefault ev, Popup_show r pgx)"
proof (cases "keyCode ev = UP")
  case True
  then show ?thesis
    using keydown_reads_menu(2) [OF assms(1) True] assms(2)
    by (simp add: focusItem_def readLastItem_def)
next
  case False
  then have "keyCode ev \<in> {RETURN, SPACE, DOWN}" using assms(3) by auto
  then show ?thesis
    using keydown_reads_menu(1) [OF assms(1)] assms(2)
    by (simp add: focusItem_def readFirstItem_def)
qed

text \<open>C9. A MenuButton is constructed with a controller and a target. If the menu option or
  the target is a UL, init has put a Menu instance in this.menu in the page the keydown
  listener is then added to, and no RETURN, SPACE, UP or DOWN keydown on that instance
  throws, whatever the page. Otherwise this.menu stays what the option was, null or the
  element that is no list, and each such keydown reads this.menu.firstItem or
  this.menu.lastItem from it with no check: with null the read throws a TypeError, after
  the default was prevented and the popup shown; with the element the read gives undefined
  and the keydown returns without moving focus.\<close>

theorem MenuButton_keydown_safety:
  "(((\<exists>m. menuOption = Some m \<and> nodeName m = ''UL'') \<or> nodeName target = ''UL'') \<longrightarrow>
      (\<exists>this' inst pg2.
         MenuButton_initMenu newMenu target
           \<lparr>buttonController = Some controller, buttonTarget = Some target,
            buttonMenu = (case menuOption of None \<Rightarrow> MenuNull | Some m \<Rightarrow> MenuElement m),
            buttonPopup = Some (eid controller)\<rparr>
           (Popup_new firstChildOf controller target pg) = (this', pg2)
       \<and> buttonMenu this' = MenuInstance inst
       \<and> MenuButton_new newMenu firstChildOf (Some controller) (Some target) menuOption pg =
            (this', addEventListener controller ''keydown''
                      (HandleControllerKeydown (eid controller)) pg2)
       \<and> (\<forall>ev pgx. keyCode ev \<in> {RETURN, SPACE, UP, DOWN} \<longrightarrow>
              \<not> faulted (handleControllerKeydown this' ev pgx))))
   \<and> (\<not> ((\<exists>m. menuOption = Some m \<and> nodeName m = ''UL'') \<or> nodeName target = ''UL'') \<longrightarrow>
        buttonMenu (fst (MenuButton_new newMenu firstChildOf (Some controller) (Some target)
                          menuOption pg)) =
          (case menuOption of None \<Rightarrow> MenuNull | Some m \<Rightarrow> MenuElement m)
      \<and> (\<forall>ev pgx. keyCode ev \<in> {RETURN, SPACE, DOWN} \<longrightarrow>
            handleControllerKeydown
              (fst (MenuButton_new newMenu firstChildOf (Some controller) (Some target)
                     menuOption pg)) ev pgx =
            focusItem
              (readFirstItem (case menuOption of None \<Rightarrow> MenuNull | Some m \<Rightarrow> MenuElement m))
              (preventDefault ev) (Popup_show (eid controller) pgx))
      \<and> (\<forall>ev pgx. keyCode ev = UP \<longrightarrow>
            handleControllerKeydown
              (fst (MenuButton_new newMenu firstChildOf (Some controller) (Some target)
                     menuOption pg)) ev pgx =
            focusItem
              (readLastItem (case menuOption of None \<Rightarrow> MenuNull | Some m \<Rightarrow> MenuElement m))
              (preventDefault ev) (Popup_show (eid controller) pgx))
      \<and> (menuOption = None \<longrightarrow>
            (\<forall>ev pgx. keyCode ev \<in> {RETURN, SPACE, UP, DOWN} \<longrightarrow>
               faulted (handleControllerKeydown
                 (fst (MenuButton_new newMenu firstChildOf (Some controller) (Some target)
                        menuOption pg)) ev pgx)
             \<and> handleControllerKeydown
                 (fst (MenuButton_new newMenu firstChildOf (Some controller) (Some target)
                        menuOption pg)) ev pgx =
               Threw TypeError (preventDefault ev, Popup_show (eid controller) pgx)))
      \<and> (\<forall>m. menuOption = Some m \<longrightarrow>
            (\<forall>ev pgx. keyCode ev \<in> {RETURN, SPACE, UP, DOWN} \<longrightarrow>
               \<not> faulted (handleControllerKeydown
                 (fst (MenuButton_new newMenu firstChildOf (Some controller) (Some target)
                        menuOption pg)) ev pgx)
             \<and> handleControllerKeydown
                 (fst (MenuButton_new newMenu firstChildOf (Some controller) (Some target)
                        menuOption pg)) ev pgx =
               Returned (preventDefault ev, Popup_show (eid controller) pgx))))"
proof -
  let ?opt = "case menuOption of None \<Rightarrow> MenuNull | Some m \<Rightarrow> MenuElement m"
  let ?this1 = "\<lparr>buttonController = Some controller, buttonTarget = Some target,
            buttonMenu = ?opt, buttonPopup = Some (eid controller)\<rparr>"
  let ?pg1 = "Popup_new firstChildOf controller target pg"
  let ?new = "MenuButton_new newMenu firstChildOf (Some controller) (Some target) menuOption pg"
  obtain this' pg2 where im: "MenuButton_initMenu newMenu target ?this1 ?pg1 = (this', pg2)"
    by (cases "MenuButton_initMenu newMenu target ?this1 ?pg1")
  have new: "?new = (this', addEventListener controller ''keydown''
                (HandleControllerKeydown (eid controller)) pg2)"
    using im by (simp add: MenuButton_new_def MenuButton_init_def Let_def)
  have f: "fst ?new = this'" by (subst new) (rule fst_conv)
  have pop: "buttonPopup this' = Some (eid controller)"
    using initMenu_popup [OF im] by simp
  note menu = initMenu_menu [OF im]
  have yes: "\<exists>this' inst pg2.
         MenuButton_initMenu newMenu target ?this1 ?pg1 = (this', pg2)
       \<and> buttonMenu this' = MenuInstance inst
       \<and> ?new = (this', addEventListener controller ''keydown''
                      (HandleControllerKeydown (eid controller)) pg2)
       \<and> (\<forall>ev pgx. keyCode ev \<in> {RETURN, SPACE, UP, DOWN} \<longrightarrow>
              \<not> faulted (handleControllerKeydown this' ev pgx))"
    if pre: "(\<exists>m. menuOption = Some m \<and> nodeName m = ''UL'') \<or> nodeName target = ''UL''"
  proof -
    have "\<exists>inst. buttonMenu this' = MenuInstance inst"
      using pre unfolding menu by (cases menuOption) auto
    then obtain inst where inst: "buttonMenu this' = MenuInstance inst" ..
    show ?thesis
      using im inst new keydown_with_menu_returns [OF pop inst] by blast
  qed
  have no: "buttonMenu (fst ?new) = ?opt
      \<and> (\<forall>ev pgx. keyCode ev \<in> {RETURN, SPACE, DOWN} \<longrightarrow>
            handleControllerKeydown (fst ?new) ev pgx =
            focusItem (readFirstItem ?opt) (preventDefault ev) (Popup_show (eid controller) pgx))
      \<and> (\<forall>ev pgx. keyCode ev = UP \<longrightarrow>
            handleControllerKeydown (fst ?new) ev pgx =
            focusItem (readLastItem ?opt) (preventDefault ev) (Popup_show (eid controller) pgx))
      \<and> (menuOption = None \<longrightarrow>
            (\<forall>ev pgx. keyCode ev \<in> {RETURN, SPACE, UP, DOWN} \<longrightarrow>
               faulted (handleControllerKeydown (fst ?new) ev pgx)
             \<and> handleControllerKeydown (fst ?new) ev pgx =
               Threw TypeError (preventDefault ev, Popup_show (eid controller) pgx)))
      \<and> (\<forall>m. menuOption = Some m \<longrightarrow>
            (\<forall>ev pgx. keyCode ev \<in> {RETURN, SPACE, UP, DOWN} \<longrightarrow>
               \<not> faulted (handleControllerKeydown (fst ?new) ev pgx)
             \<and> handleControllerKeydown (fst ?new) ev pgx =
               Returned (preventDefault ev, Popup_show (eid controller) pgx)))"
    if npre: "\<not> ((\<exists>m. menuOption = Some m \<and> nodeName m = ''UL'') \<or> nodeName target = ''UL'')"
  proof -
    have m: "buttonMenu this' = ?opt"
      using npre unfolding menu by (cases menuOption) auto
    have a: "\<forall>ev pgx. keyCode ev \<in> {RETURN, SPACE, DOWN} \<longrightarrow>
            handleControllerKeydown this' ev pgx =
            focusItem (readFirstItem ?opt) (preventDefault ev) (Popup_show (eid controller) pgx)"
      using keydown_reads_menu(1) [OF pop] unfolding m by blast
    have b: "\<forall>ev pgx. keyCode ev = UP \<longrightarrow>
            handleControllerKeydown this' ev pgx =
            focusItem (readLastItem ?opt) (preventDefault ev) (Popup_show (eid controller) pgx)"
      using keydown_reads_menu(2) [OF pop] unfolding m by blast
    have c: "\<forall>ev pgx. keyCode ev \<in> {RETURN, SPACE, UP, DOWN} \<longrightarrow>
               faulted (handleControllerKeydown this' ev pgx)
             \<and> handleControllerKeydown this' ev pgx =
               Threw TypeError (preventDefault ev, Popup_show (eid controller) pgx)"
      if "menuOption = None"
    proof (intro allI impI)
      fix ev :: event and pgx assume k: "keyCode ev \<in> {RETURN, SPACE, UP, DOWN}"
      have "buttonMenu this' = MenuNull" using m that by simp
      from keydown_null_menu [OF pop this k, of pgx]
      show "faulted (handleControllerKeydown this' ev pgx)
             \<and> handleControllerKeydown this' ev pgx =
               Threw TypeError (preventDefault ev, Popup_show (eid controller) pgx)"
        by simp
    qed
    have d: "\<forall>ev pgx. keyCode ev \<in> {RETURN, SPACE, UP, DOWN} \<longrightarrow>
               \<not> faulted (handleControllerKeydown this' ev pgx)
             \<and> handleControllerKeydown this' ev pgx =
               Returned (preventDefault ev, Popup_show (eid controller) pgx)"
      if "menuOption = Some e" for e
    proof (intro allI impI)
      fix ev :: event and pgx assume k: "keyCode ev \<in> {RETURN, SPACE, UP, DOWN}"
      have "buttonMenu this' = MenuElement e" using m that by simp
      from keydown_element_menu [OF pop this k, of pgx]
      show "\<not> faulted (handleControllerKeydown this' ev pgx)
             \<and> handleControllerKeydown this' ev pgx =
               Returned (preventDefault ev, Popup_show (eid controller) pgx)"
        by simp
    qed
    show ?thesis unfolding f using m a b c d by blast
  qed
  show ?thesis using yes no by blast
qed

section \<open>The key handlers on the sample pages\<close>

theorem MenuItem_vertical_arrows_wrap_witness:
  "handleListKeydown sampleList sampleItem (keydown DOWN) (focus linkB emptyPage) =
     Returned (preventDefault (stopPropagation (keydown DOWN)), focus linkA (focus linkB emptyPage))
   \<and> handleListKeydown sampleList sampleItem (keydown UP) (focus linkA emptyPage) =
     Returned (preventDefault (stopPropagation (keydown UP)), focus linkB (focus linkA emptyPage))"
proof -
  have d: "distinct (menuItems sampleItem)"
    by (simp add: sampleItem_def linkA_def linkB_def)
  have b: "activeDescendant sampleItem (focus linkB emptyPage) = Some (menuItems sampleItem ! 1)"
    by (simp add: activeDescendant_def contains_def focus_def sampleItem_def sampleList_def
        linkA_def linkB_def subList_def linkC_def)
  have a: "activeDescendant sampleItem (focus linkA emptyPage) = Some (menuItems sampleItem ! 0)"
    by (simp add: activeDescendant_def contains_def focus_def sampleItem_def sampleList_def
        linkA_def linkB_def subList_def linkC_def)
  have n: "1 < length (menuItems sampleItem)" "0 < length (menuItems sampleItem)"
    by (simp_all add: sampleItem_def)
  show ?thesis
    using MenuItem_vertical_arrows_wrap [OF d n(1) b, of "keydown DOWN" sampleList]
      MenuItem_vertical_arrows_wrap [OF d n(2) a, of "keydown UP" sampleList]
    by (simp add: keydown_def sampleItem_def UP_def DOWN_def)
qed

lemmas sample_defs = sampleList_def linkA_def linkB_def linkC_def subList_def bareList_def
  bareSub_def emptyPage_def

lemma sample_init_sub:
  "menuItemOf (MenuItem_new sampleList emptyPage) (eid subList) =
     Some \<lparr>itemList = subList, listItems = children subList, menuItems = [linkC],
       menuItemsLength = 1, firstItem = Some linkC, previousSibling = Some linkA\<rparr>"
  by (simp add: MenuItem_new.simps sample_defs Let_def nextElementIsUl_def firstElementChild_def setAttribute_def
      addEventListener_def setPreviousSibling_def at_def)

lemma bare_init_sub:
  "menuItemOf (MenuItem_new bareList emptyPage) (eid bareSub) =
     Some \<lparr>itemList = bareSub, listItems = children bareSub, menuItems = [],
       menuItemsLength = 0, firstItem = None, previousSibling = Some linkA\<rparr>"
  by (simp add: MenuItem_new.simps sample_defs Let_def nextElementIsUl_def firstElementChild_def setAttribute_def
      addEventListener_def setPreviousSibling_def at_def)

lemma sample_init_list:
  "menuItemOf (MenuItem_new sampleList emptyPage) (eid sampleList) = Some sampleItem"
  by (simp add: MenuItem_new.simps sample_defs sampleItem_def Let_def nextElementIsUl_def
      firstElementChild_def setAttribute_def addEventListener_def setPreviousSibling_def at_def)

lemma sample_init_top:
  "menuItemOf (MenuItem_new bareList emptyPage) (eid bareList) = Some bareItem"
  by (simp add: MenuItem_new.simps sample_defs bareItem_def Let_def nextElementIsUl_def firstElementChild_def
      setAttribute_def addEventListener_def setPreviousSibling_def at_def)

text \<open>C4, as stated, fails. The nested list of this page holds no link: its MenuItem instance
  has no first item, and the RIGHT keydown throws a TypeError after it stopped the event,
  with focus where it was.\<close>

theorem MenuItem_right_key_bare_sublist:
  "nextElementIsUl bareList linkA = Some bareSub
   \<and> menuItemOf (focus linkA (MenuItem_new bareList emptyPage)) (eid bareList) = Some bareItem
   \<and> menuItemOf (focus linkA (MenuItem_new bareList emptyPage)) (eid bareSub) \<noteq> None
   \<and> handleListKeydown bareList bareItem (keydown RIGHT)
         (focus linkA (MenuItem_new bareList emptyPage)) =
       Threw TypeError (preventDefault (stopPropagation (keydown RIGHT)),
         focus linkA (MenuItem_new bareList emptyPage))"
proof -
  have sib: "nextElementIsUl bareList linkA = Some bareSub"
    by (simp add: sample_defs nextElementIsUl_def)
  have act: "activeDescendant bareItem (focus linkA (MenuItem_new bareList emptyPage)) = Some linkA"
    by (simp add: activeDescendant_def focus_def contains_def bareItem_def sample_defs)
  have m: "menuItemOf (focus linkA (MenuItem_new bareList emptyPage)) = menuItemOf (MenuItem_new bareList emptyPage)"
    by (simp add: focus_def)
  have keys: "RIGHT \<noteq> UP" "RIGHT \<noteq> DOWN" by (simp_all add: RIGHT_def UP_def DOWN_def)
  have "handleListKeydown bareList bareItem (keydown RIGHT)
         (focus linkA (MenuItem_new bareList emptyPage)) =
       Threw TypeError (preventDefault (stopPropagation (keydown RIGHT)),
         focus linkA (MenuItem_new bareList emptyPage))"
    unfolding handleListKeydown_def Let_def act
    using keys by (simp add: keydown_def sib m bare_init_sub)
  then show ?thesis using sib by (simp add: m bare_init_sub sample_init_top)
qed

theorem MenuItem_right_and_left_keys_witness:
  "handleListKeydown sampleList sampleItem (keydown RIGHT)
       (focus linkA (MenuItem_new sampleList emptyPage)) =
     Returned (preventDefault (stopPropagation (keydown RIGHT)),
       focus linkC (focus linkA (MenuItem_new sampleList emptyPage)))
   \<and> activeElement (snd (reached (handleListKeydown sampleList subItem (keydown LEFT)
         (Popup_show (eid linkA) (Popup_new sampleFirstChild linkA subList emptyPage)))))
       = Some linkA
   \<and> map_option expanded
        (popupOf (snd (reached (handleListKeydown sampleList subItem (keydown LEFT)
           (Popup_show (eid linkA) (Popup_new sampleFirstChild linkA subList emptyPage)))))
          (eid linkA))
       = Some False"
proof -
  let ?pgR = "focus linkA (MenuItem_new sampleList emptyPage)"
  let ?pgL = "Popup_show (eid linkA) (Popup_new sampleFirstChild linkA subList emptyPage)"
  have sib: "nextElementIsUl sampleList linkA = Some subList"
    by (simp add: sample_defs nextElementIsUl_def)
  have act: "activeDescendant sampleItem ?pgR = Some linkA"
    by (simp add: activeDescendant_def focus_def contains_def sampleItem_def sample_defs)
  have m: "menuItemOf ?pgR (eid subList) = Some subItem"
    by (simp add: focus_def sample_init_sub subItem_def)
  have pop: "popupOf ?pgL (eid linkA) =
      Some \<lparr>popupController = linkA, popupTarget = subList, expanded = True,
        firstChild = sampleFirstChild subList\<rparr>"
    by (simp add: Popup_show_def Popup_new_def Popup_setExpanded_def Let_def setAttribute_def)
  have r: "keyCode (keydown RIGHT) = RIGHT \<and> activeDescendant sampleItem ?pgR = Some linkA
      \<and> nextElementIsUl sampleList linkA = Some subList
      \<and> menuItemOf ?pgR (eid subList) = Some subItem \<and> firstItem subItem = Some linkC"
    using sib act m by (simp add: keydown_def subItem_def)
  have l: "keyCode (keydown LEFT) = LEFT \<and> previousSibling subItem = Some linkA"
    by (simp add: keydown_def subItem_def)
  from MenuItem_right_and_left_keys
    [of "keydown RIGHT" sampleItem ?pgR linkA sampleList subList subItem linkC linkA] r
  have right: "handleListKeydown sampleList sampleItem (keydown RIGHT) ?pgR =
     Returned (preventDefault (stopPropagation (keydown RIGHT)), focus linkC ?pgR)"
    by blast
  define pop where "pop = \<lparr>popupController = linkA, popupTarget = subList, expanded = True,
        firstChild = sampleFirstChild subList\<rparr>"
  have open_pop: "popupOf ?pgL (eid linkA) = Some pop \<and> expanded pop"
    using pop by (simp add: pop_def)
  from MenuItem_right_and_left_keys
    [of "keydown LEFT" subItem ?pgL linkA sampleList subList subItem linkC linkA] l
  have left: "activeElement (snd (reached (handleListKeydown sampleList subItem (keydown LEFT) ?pgL))) = Some linkA
    \<and> (\<forall>p. popupOf ?pgL (eid linkA) = Some p \<and> expanded p \<longrightarrow>
      map_option expanded
        (popupOf (snd (reached (handleListKeydown sampleList subItem (keydown LEFT) ?pgL))) (eid linkA))
       = Some False)"
    by blast
  then have closed: "map_option expanded
        (popupOf (snd (reached (handleListKeydown sampleList subItem (keydown LEFT) ?pgL))) (eid linkA))
       = Some False"
    using open_pop by blast
  show ?thesis using right left closed by blast
qed

lemma listButton_parts:
  "buttonPopup (fst listButton) = Some (eid button)"
  "buttonMenu (fst listButton) =
     MenuInstance \<lparr>menuFirstItem = Some linkA, menuLastItem = Some linkB,
       menuPreviousSibling = None\<rparr>"
  "popupOf (snd listButton) (eid button) =
     Some \<lparr>popupController = button, popupTarget = sampleList, expanded = False,
       firstChild = Some linkA\<rparr>"
  "activeElement (snd listButton) = None"
  by (simp_all add: listButton_def MenuButton_new_def MenuButton_init_def MenuButton_initMenu_def
      sampleMenu_def sampleFirstChild_def Popup_new_def Popup_setExpanded_def Let_def
      setAttribute_def addEventListener_def firstElementChild_def at_def sample_defs button_def)

theorem MenuButton_open_and_focus_witness:
  "defaultPrevented (fst (reached (handleControllerKeydown (fst listButton) (keydown DOWN) (snd listButton))))
   \<and> map_option expanded
        (popupOf (snd (reached (handleControllerKeydown (fst listButton) (keydown DOWN) (snd listButton))))
          (eid button)) = Some True
   \<and> activeElement (snd (reached (handleControllerKeydown (fst listButton) (keydown DOWN) (snd listButton))))
        = Some linkA
   \<and> activeElement (snd (reached (handleControllerKeydown (fst listButton) (keydown UP) (snd listButton))))
        = Some linkB
   \<and> handleControllerKeydown (fst listButton) (keydown TAB) (snd listButton)
        = Returned (keydown TAB, snd listButton)"
  using MenuButton_open_and_focus [OF listButton_parts(1) listButton_parts(3), of "keydown DOWN"]
    MenuButton_open_and_focus [OF listButton_parts(1) listButton_parts(3), of "keydown UP"]
    MenuButton_open_and_focus [OF listButton_parts(1) listButton_parts(3), of "keydown TAB"]
  by (simp add: listButton_parts(2) keydown_def UP_def DOWN_def TAB_def RETURN_def SPACE_def)

theorem MenuButton_keydown_safety_witness:
  "(\<exists>inst. buttonMenu (fst listButton) = MenuInstance inst)
   \<and> \<not> faulted (handleControllerKeydown (fst listButton) (keydown DOWN) (snd listButton))
   \<and> buttonMenu (fst divButton) = MenuNull
   \<and> faulted (handleControllerKeydown (fst divButton) (keydown DOWN) (snd divButton))
   \<and> handleControllerKeydown (fst divButton) (keydown DOWN) (snd divButton) =
       Threw TypeError (preventDefault (keydown DOWN), Popup_show (eid button) (snd divButton))
   \<and> buttonMenu (fst panelButton) = MenuElement panel
   \<and> \<not> faulted (handleControllerKeydown (fst panelButton) (keydown UP) (snd panelButton))
   \<and> handleControllerKeydown (fst panelButton) (keydown UP) (snd panelButton) =
       Returned (preventDefault (keydown UP), Popup_show (eid button) (snd panelButton))"
proof -
  have ul: "(\<exists>m. (None :: element option) = Some m \<and> nodeName m = ''UL'') \<or> nodeName sampleList = ''UL''"
    by (simp add: sampleList_def)
  have dv: "\<not> ((\<exists>m. (None :: element option) = Some m \<and> nodeName m = ''UL'') \<or> nodeName wrapper = ''UL'')"
    by (simp add: wrapper_def)
  have pn: "\<not> ((\<exists>m. Some panel = Some m \<and> nodeName m = ''UL'') \<or> nodeName wrapper = ''UL'')"
    by (simp add: wrapper_def panel_def)
  have k: "keyCode (keydown DOWN) \<in> {RETURN, SPACE, UP, DOWN}"
    "keyCode (keydown UP) \<in> {RETURN, SPACE, UP, DOWN}"
    by (simp_all add: keydown_def)
  from MenuButton_keydown_safety
    [of None sampleList sampleMenu button sampleFirstChild emptyPage] ul
  obtain this' inst pg2 where
    inst: "buttonMenu this' = MenuInstance inst" and
    lb: "listButton = (this', addEventListener button ''keydown''
        (HandleControllerKeydown (eid button)) pg2)" and
    safe: "\<forall>ev pgx. keyCode ev \<in> {RETURN, SPACE, UP, DOWN} \<longrightarrow>
        \<not> faulted (handleControllerKeydown this' ev pgx)"
    unfolding listButton_def by blast
  have f: "fst listButton = this'" by (subst lb) (rule fst_conv)
  have a: "(\<exists>inst. buttonMenu (fst listButton) = MenuInstance inst)
      \<and> \<not> faulted (handleControllerKeydown (fst listButton) (keydown DOWN) (snd listButton))"
    unfolding f using inst safe k(1) by blast
  from MenuButton_keydown_safety
    [of None wrapper sampleMenu button sampleFirstChild emptyPage] dv
  have "buttonMenu (fst divButton) = (case None of None \<Rightarrow> MenuNull | Some m \<Rightarrow> MenuElement m)
      \<and> (\<forall>ev pgx. keyCode ev \<in> {RETURN, SPACE, UP, DOWN} \<longrightarrow>
               faulted (handleControllerKeydown (fst divButton) ev pgx)
             \<and> handleControllerKeydown (fst divButton) ev pgx =
               Threw TypeError (preventDefault ev, Popup_show (eid button) pgx))"
    unfolding divButton_def by blast
  then have "buttonMenu (fst divButton) = MenuNull
      \<and> (keyCode (keydown DOWN) \<in> {RETURN, SPACE, UP, DOWN} \<longrightarrow>
        faulted (handleControllerKeydown (fst divButton) (keydown DOWN) (snd divButton))
        \<and> handleControllerKeydown (fst divButton) (keydown DOWN) (snd divButton) =
            Threw TypeError (preventDefault (keydown DOWN), Popup_show (eid button) (snd divButton)))"
    by (simp only: option.case) blast
  then have b: "buttonMenu (fst divButton) = MenuNull
      \<and> faulted (handleControllerKeydown (fst divButton) (keydown DOWN) (snd divButton))
      \<and> handleControllerKeydown (fst divButton) (keydown DOWN) (snd divButton) =
            Threw TypeError (preventDefault (keydown DOWN), Popup_show (eid button) (snd divButton))"
    using k(1) by blast
  from MenuButton_keydown_safety
    [of "Some panel" wrapper sampleMenu button sampleFirstChild emptyPage] pn
  have "buttonMenu (fst panelButton) =
        (case Some panel of None \<Rightarrow> MenuNull | Some m \<Rightarrow> MenuElement m)
      \<and> (\<forall>ev pgx. keyCode ev \<in> {RETURN, SPACE, UP, DOWN} \<longrightarrow>
               \<not> faulted (handleControllerKeydown (fst panelButton) ev pgx)
             \<and> handleControllerKeydown (fst panelButton) ev pgx =
               Returned (preventDefault ev, Popup_show (eid button) pgx))"
    unfolding panelButton_def by blast
  then have "buttonMenu (fst panelButton) = MenuElement panel
      \<and> (keyCode (keydown UP) \<in> {RETURN, SPACE, UP, DOWN} \<longrightarrow>
        \<not> faulted (handleControllerKeydown (fst panelButton) (keydown UP) (snd panelButton))
        \<and> handleControllerKeydown (fst panelButton) (keydown UP) (snd panelButton) =
            Returned (preventDefault (keydown UP), Popup_show (eid button) (snd panelButton)))"
    by (simp only: option.case) blast
  then have c: "buttonMenu (fst panelButton) = MenuElement panel
      \<and> \<not> faulted (handleControllerKeydown (fst panelButton) (keydown UP) (snd panelButton))
      \<and> handleControllerKeydown (fst panelButton) (keydown UP) (snd panelButton) =
            Returned (preventDefault (keydown UP), Popup_show (eid button) (snd panelButton))"
    using k(2) by blast
  show ?thesis using a b c by blast
qed

section \<open>MenuBar: tab order, keys and attributes\<close>

lemma attributes_setAttribute:
  "attributes (setAttribute e n v pg) k name =
     (if k = eid e \<and> name = n then Some v else attributes pg k name)"
  by (simp add: setAttribute_def)

lemma attributes_removeAttribute:
  "attributes (removeAttribute e n pg) k name =
     (if k = eid e \<and> name = n then None else attributes pg k name)"
  by (simp add: removeAttribute_def)

lemma tabIndexDeny_attributes:
  "attributes (tabIndexDeny xs pg) k name =
     (if k \<in> eid ` set xs \<and> name = ''tabindex'' then Some (Text ''-1'')
      else attributes pg k name)"
  unfolding tabIndexDeny_def
  by (induction xs arbitrary: pg) (auto simp: attributes_setAttribute)

lemma tabIndexDeny_other [simp]:
  "activeElement (tabIndexDeny xs pg) = activeElement pg"
  "popupOf (tabIndexDeny xs pg) = popupOf pg"
  unfolding tabIndexDeny_def
  by (induction xs arbitrary: pg) (simp_all add: setAttribute_def)

lemma rovingTabIndex_other [simp]:
  "activeElement (rovingTabIndex xs a pg) = activeElement pg"
  "popupOf (rovingTabIndex xs a pg) = popupOf pg"
  by (simp_all add: rovingTabIndex_def tabIndexAllow_def removeAttribute_def)

lemma rovingTabIndex_attributes:
  "attributes (rovingTabIndex items allow pg) k name =
     (if name = ''tabindex'' then
        (if k \<in> eid ` {x \<in> set items. x \<noteq> allow} then Some (Text ''-1'')
         else if k = eid allow then None else attributes pg k name)
      else attributes pg k name)"
  by (auto simp: rovingTabIndex_def tabIndexDeny_attributes tabIndexAllow_def
      attributes_removeAttribute)

lemma roving_tab_order:
  assumes "distinct (map eid items)" and "allow \<in> set items" and "e \<in> set items"
  shows "inTabOrder (rovingTabIndex items allow pg) e \<longleftrightarrow> e = allow"
proof -
  have inj: "inj_on eid (set items)" using assms(1) by (simp add: distinct_map)
  have a: "eid allow \<notin> eid ` {x \<in> set items. x \<noteq> allow}"
    using inj assms(2) by (auto dest: inj_onD)
  show ?thesis
  proof (cases "e = allow")
    case True
    then show ?thesis
      using a by (simp add: inTabOrder_def getAttribute_def rovingTabIndex_attributes)
  next
    case False
    then have "eid e \<in> eid ` {x \<in> set items. x \<noteq> allow}" using assms(3) by blast
    then show ?thesis
      using False by (simp add: inTabOrder_def getAttribute_def rovingTabIndex_attributes)
  qed
qed

lemma filter_absent: "x \<notin> set xs \<Longrightarrow> filter (\<lambda>e. e = x) xs = []"
  by (induction xs) auto

lemma filter_only:
  "distinct xs \<Longrightarrow> x \<in> set xs \<Longrightarrow> filter (\<lambda>e. e = x) xs = [x]"
  by (induction xs) (auto simp: filter_absent)

lemma stateWasUpdated_roving:
  assumes "distinct (map eid (menuBarItems this))"
    and "menubarItem (barState this) = Some item" and "item \<in> set (menuBarItems this)"
  shows "\<exists>this' pg'. stateWasUpdated this pg = Returned (this', pg')
      \<and> menubarItem (barState this') = Some item
      \<and> menuBarItems this' = menuBarItems this
      \<and> activeElement pg' = Some item
      \<and> filter (inTabOrder pg') (menuBarItems this') = [item]"
proof -
  let ?pg' = "focus item (rovingTabIndex (menuBarItems this) item pg)"
  have tab: "inTabOrder ?pg' e \<longleftrightarrow> e = item" if "e \<in> set (menuBarItems this)" for e
    using roving_tab_order [OF assms(1,3) that, of pg]
    by (simp add: inTabOrder_def getAttribute_def focus_def)
  have "filter (inTabOrder ?pg') (menuBarItems this) = filter (\<lambda>e. e = item) (menuBarItems this)"
    using tab by (intro filter_cong) auto
  also have "\<dots> = [item]"
    using assms(1,3) by (simp add: filter_only distinct_map)
  finally show ?thesis
    using assms(2)
    by (simp add: stateWasUpdated_def getPopupFromMenubarItem_def Let_def focus_def)
qed

lemma MenuBar_setState_Some:
  "MenuBar_setState (Some item) this pg =
     Returned
       (this\<lparr>barState := \<lparr>menubarItem = Some item,
           statePopup = (case popupOf pg (eid item) of None \<Rightarrow> None | Some p \<Rightarrow> Some (eid item))\<rparr>\<rparr>,
        focus item (rovingTabIndex (menuBarItems this) item pg))"
  by (simp add: MenuBar_setState_def stateWasUpdated_def getPopupFromMenubarItem_def Let_def)

lemma popupOf_focus [simp]: "popupOf (focus e pg) = popupOf pg"
  by (simp add: focus_def)

lemma popupOf_setAttribute [simp]: "popupOf (setAttribute e n v pg) = popupOf pg"
  by (simp add: setAttribute_def)

lemma Popup_setExpanded_closes:
  "popupOf pg p \<noteq> None \<Longrightarrow>
     map_option expanded (popupOf (Popup_setExpanded p False pg) p) = Some False"
  by (auto simp: Popup_setExpanded_def Let_def)

lemma at_first: "xs \<noteq> [] \<Longrightarrow> at xs 0 = Some (hd xs)"
  by (cases xs) (simp_all add: at_def)

lemma at_last: "xs \<noteq> [] \<Longrightarrow> at xs (int (length xs) - 1) = Some (last xs)"
proof -
  assume ne: "xs \<noteq> []"
  then have "nat (int (length xs) - 1) = length xs - 1" "0 < length xs" by simp_all
  then show ?thesis using ne by (simp add: at_def last_conv_nth)
qed

lemma MenuBar_horizontal_keys_any_resolver:
  assumes "menuBarItems this \<noteq> []"
    and "lastIndex this = int (length (menuBarItems this)) - 1"
  shows
   "((keyCode ev = LEFT \<or> keyCode ev = RIGHT)
       \<and> nextPrevious (keyCode ev) (menubarItem (barState this)) (menuBarItems this) = Some nextItem \<longrightarrow>
       handleMenuBarKeydown nextPrevious matches this ev pg =
         withEvent (preventDefault (stopPropagation ev))
           (MenuBar_setState (Some nextItem) this
             (case statePopup (barState this) of
                None \<Rightarrow> pg
              | Some p \<Rightarrow> Popup_setExpanded p False pg))
     \<and> menubarItem (barState (barAfter (handleMenuBarKeydown nextPrevious matches this ev pg)))
           = Some nextItem
     \<and> (\<forall>p. statePopup (barState this) = Some p \<and> popupOf pg p \<noteq> None \<longrightarrow>
           map_option expanded
             (popupOf (pageAfter (handleMenuBarKeydown nextPrevious matches this ev pg)) p)
           = Some False))
    \<and> ((keyCode ev = LEFT \<or> keyCode ev = RIGHT)
       \<and> nextPrevious (keyCode ev) (menubarItem (barState this)) (menuBarItems this) = None \<longrightarrow>
       handleMenuBarKeydown nextPrevious matches this ev pg = Returned (ev, this, pg))
    \<and> (keyCode ev = HOME \<longrightarrow>
       menubarItem (barState (barAfter (handleMenuBarKeydown nextPrevious matches this ev pg)))
         = Some (hd (menuBarItems this)))
    \<and> (keyCode ev = END \<longrightarrow>
       menubarItem (barState (barAfter (handleMenuBarKeydown nextPrevious matches this ev pg)))
         = Some (last (menuBarItems this)))"
proof -
  have keys: "HOME \<noteq> LEFT" "HOME \<noteq> RIGHT" "HOME \<noteq> SPACE" "HOME \<noteq> RETURN" "HOME \<noteq> DOWN"
    "END \<noteq> LEFT" "END \<noteq> RIGHT" "END \<noteq> SPACE" "END \<noteq> RETURN" "END \<noteq> DOWN" "END \<noteq> HOME"
    by (simp_all add: HOME_def END_def LEFT_def RIGHT_def SPACE_def RETURN_def DOWN_def)
  have first: "at (menuBarItems this) 0 = Some (hd (menuBarItems this))"
    using assms(1) by (rule at_first)
  have final: "at (menuBarItems this) (lastIndex this) = Some (last (menuBarItems this))"
    using assms by (simp add: at_last)
  have home: "keyCode ev = HOME \<Longrightarrow>
      menubarItem (barState (barAfter (handleMenuBarKeydown nextPrevious matches this ev pg)))
         = Some (hd (menuBarItems this))"
    using keys by (simp add: handleMenuBarKeydown_def Let_def first MenuBar_setState_Some
        withEvent_def barAfter_def)
  have "end": "keyCode ev = END \<Longrightarrow>
      menubarItem (barState (barAfter (handleMenuBarKeydown nextPrevious matches this ev pg)))
         = Some (last (menuBarItems this))"
    using keys by (simp add: handleMenuBarKeydown_def Let_def final MenuBar_setState_Some
        withEvent_def barAfter_def)
  have side: "(keyCode ev = LEFT \<or> keyCode ev = RIGHT) \<Longrightarrow>
      handleMenuBarKeydown nextPrevious matches this ev pg =
       (case nextPrevious (keyCode ev) (menubarItem (barState this)) (menuBarItems this) of
          None \<Rightarrow> Returned (ev, this, pg)
        | Some nextItem \<Rightarrow>
            withEvent (preventDefault (stopPropagation ev))
              (MenuBar_setState (Some nextItem) this
                (case statePopup (barState this) of
                   None \<Rightarrow> pg
                 | Some p \<Rightarrow> Popup_setExpanded p False pg)))"
    by (simp add: handleMenuBarKeydown_def Let_def cong: option.case_cong)
  have closed: "map_option expanded
        (popupOf (pageAfter (withEvent e
           (MenuBar_setState (Some nextItem) this (Popup_setExpanded p False pg)))) p) = Some False"
    if "popupOf pg p \<noteq> None" for e p
    using Popup_setExpanded_closes [OF that]
    by (simp add: MenuBar_setState_Some withEvent_def pageAfter_def)
  have sel: "menubarItem (barState (barAfter (withEvent e (MenuBar_setState (Some nextItem) this q))))
      = Some nextItem" for e q
    by (simp add: MenuBar_setState_Some withEvent_def barAfter_def)
  have move: "handleMenuBarKeydown nextPrevious matches this ev pg =
         withEvent (preventDefault (stopPropagation ev))
           (MenuBar_setState (Some nextItem) this
             (case statePopup (barState this) of
                None \<Rightarrow> pg
              | Some p \<Rightarrow> Popup_setExpanded p False pg))"
    if "(keyCode ev = LEFT \<or> keyCode ev = RIGHT)
       \<and> nextPrevious (keyCode ev) (menubarItem (barState this)) (menuBarItems this) = Some nextItem"
    using that side by simp
  have stay: "handleMenuBarKeydown nextPrevious matches this ev pg = Returned (ev, this, pg)"
    if "(keyCode ev = LEFT \<or> keyCode ev = RIGHT)
       \<and> nextPrevious (keyCode ev) (menubarItem (barState this)) (menuBarItems this) = None"
    using that side by simp
  show ?thesis
  proof (intro conjI impI allI)
    assume h: "(keyCode ev = LEFT \<or> keyCode ev = RIGHT)
       \<and> nextPrevious (keyCode ev) (menubarItem (barState this)) (menuBarItems this) = Some nextItem"
    show "handleMenuBarKeydown nextPrevious matches this ev pg =
         withEvent (preventDefault (stopPropagation ev))
           (MenuBar_setState (Some nextItem) this
             (case statePopup (barState this) of
                None \<Rightarrow> pg
              | Some p \<Rightarrow> Popup_setExpanded p False pg))"
      using h by (rule move)
    show "menubarItem (barState (barAfter (handleMenuBarKeydown nextPrevious matches this ev pg)))
           = Some nextItem"
      unfolding move [OF h] by (rule sel)
    fix p
    assume p: "statePopup (barState this) = Some p \<and> popupOf pg p \<noteq> None"
    show "map_option expanded
             (popupOf (pageAfter (handleMenuBarKeydown nextPrevious matches this ev pg)) p)
           = Some False"
      unfolding move [OF h] using p closed by simp
  next
    assume "(keyCode ev = LEFT \<or> keyCode ev = RIGHT)
       \<and> nextPrevious (keyCode ev) (menubarItem (barState this)) (menuBarItems this) = None"
    then show "handleMenuBarKeydown nextPrevious matches this ev pg = Returned (ev, this, pg)"
      by (rule stay)
  next
    assume "keyCode ev = HOME"
    then show "menubarItem (barState (barAfter (handleMenuBarKeydown nextPrevious matches this ev pg)))
         = Some (hd (menuBarItems this))"
      by (rule home)
  next
    assume "keyCode ev = END"
    then show "menubarItem (barState (barAfter (handleMenuBarKeydown nextPrevious matches this ev pg)))
         = Some (last (menuBarItems this))"
      by (rule "end")
  qed
qed

lemma resolve_left_right:
  assumes "distinct items" and "i < length items"
  shows "nextPreviousFromLeftRight LEFT (Some (items ! i)) items =
           (if 0 < i then Some (items ! (i - 1)) else None)"
    and "nextPreviousFromLeftRight RIGHT (Some (items ! i)) items =
           (if i + 1 < length items then Some (items ! (i + 1)) else None)"
proof -
  have idx: "indexOf items (Some (items ! i)) = int i"
    using assms by (rule indexOf_nth)
  have rl: "RIGHT \<noteq> LEFT" by (simp add: RIGHT_def LEFT_def)
  have l: "nextPreviousFromLeftRight LEFT (Some (items ! i)) items = at items (int i - 1)"
    unfolding nextPreviousFromLeftRight_def idx Let_def by simp
  have r: "nextPreviousFromLeftRight RIGHT (Some (items ! i)) items = at items (int i + 1)"
    unfolding nextPreviousFromLeftRight_def idx Let_def using rl by simp
  show "nextPreviousFromLeftRight LEFT (Some (items ! i)) items =
           (if 0 < i then Some (items ! (i - 1)) else None)"
  proof (cases i)
    case 0
    then show ?thesis unfolding l by (simp add: at_def)
  next
    case (Suc j)
    then have "j < length items" using assms(2) by simp
    then show ?thesis unfolding l using Suc by (simp add: at_def)
  qed
  show "nextPreviousFromLeftRight RIGHT (Some (items ! i)) items =
           (if i + 1 < length items then Some (items ! (i + 1)) else None)"
  proof (cases "i + 1 < length items")
    case True
    have "nat (int i + 1) = i + 1" by simp
    then show ?thesis unfolding r using True by (simp add: at_def)
  next
    case False
    then show ?thesis unfolding r by (simp add: at_def)
  qed
qed

text \<open>C3. On a keydown at the current menubar item, the item at index i of the menubar's
  links, LEFT resolves to the item before it and RIGHT to the item after it, and to none
  when the list has no such item. When the key resolves to an item, the current item's
  popup (when there is one) is set to not expanded and then the resolved item is made the
  selected menubarItem; when it resolves to none, nothing changes. HOME selects the first
  menubar item and END the last.\<close>

theorem MenuBar_horizontal_keys:
  assumes "distinct (menuBarItems this)"
    and "i < length (menuBarItems this)"
    and "menubarItem (barState this) = Some (menuBarItems this ! i)"
    and "lastIndex this = int (length (menuBarItems this)) - 1"
  shows
   "nextPreviousFromLeftRight LEFT (menubarItem (barState this)) (menuBarItems this)
      = (if 0 < i then Some (menuBarItems this ! (i - 1)) else None)
    \<and> nextPreviousFromLeftRight RIGHT (menubarItem (barState this)) (menuBarItems this)
      = (if i + 1 < length (menuBarItems this) then Some (menuBarItems this ! (i + 1)) else None)
    \<and> ((keyCode ev = LEFT \<or> keyCode ev = RIGHT)
       \<and> nextPreviousFromLeftRight (keyCode ev) (menubarItem (barState this)) (menuBarItems this)
           = Some nextItem \<longrightarrow>
       handleMenuBarKeydown nextPreviousFromLeftRight matches this ev pg =
         withEvent (preventDefault (stopPropagation ev))
           (MenuBar_setState (Some nextItem) this
             (case statePopup (barState this) of
                None \<Rightarrow> pg
              | Some p \<Rightarrow> Popup_setExpanded p False pg))
     \<and> menubarItem (barState (barAfter
           (handleMenuBarKeydown nextPreviousFromLeftRight matches this ev pg)))
           = Some nextItem
     \<and> (\<forall>p. statePopup (barState this) = Some p \<and> popupOf pg p \<noteq> None \<longrightarrow>
           map_option expanded
             (popupOf (pageAfter
                (handleMenuBarKeydown nextPreviousFromLeftRight matches this ev pg)) p)
           = Some False))
    \<and> ((keyCode ev = LEFT \<or> keyCode ev = RIGHT)
       \<and> nextPreviousFromLeftRight (keyCode ev) (menubarItem (barState this)) (menuBarItems this)
           = None \<longrightarrow>
       handleMenuBarKeydown nextPreviousFromLeftRight matches this ev pg = Returned (ev, this, pg))
    \<and> (keyCode ev = LEFT \<and> 0 < i \<longrightarrow>
       menubarItem (barState (barAfter
           (handleMenuBarKeydown nextPreviousFromLeftRight matches this ev pg)))
         = Some (menuBarItems this ! (i - 1)))
    \<and> (keyCode ev = RIGHT \<and> i + 1 < length (menuBarItems this) \<longrightarrow>
       menubarItem (barState (barAfter
           (handleMenuBarKeydown nextPreviousFromLeftRight matches this ev pg)))
         = Some (menuBarItems this ! (i + 1)))
    \<and> (keyCode ev = HOME \<longrightarrow>
       menubarItem (barState (barAfter
           (handleMenuBarKeydown nextPreviousFromLeftRight matches this ev pg)))
         = Some (hd (menuBarItems this)))
    \<and> (keyCode ev = END \<longrightarrow>
       menubarItem (barState (barAfter
           (handleMenuBarKeydown nextPreviousFromLeftRight matches this ev pg)))
         = Some (last (menuBarItems this)))"
proof -
  let ?items = "menuBarItems this"
  let ?np = nextPreviousFromLeftRight
  have ne: "?items \<noteq> []" using assms(2) by auto
  note res = resolve_left_right [OF assms(1,2), folded assms(3)]
  note any = MenuBar_horizontal_keys_any_resolver [OF ne assms(4), of ev ?np _ matches pg]
  have left: "menubarItem (barState (barAfter (handleMenuBarKeydown ?np matches this ev pg)))
         = Some (?items ! (i - 1))"
    if "keyCode ev = LEFT \<and> 0 < i"
  proof -
    have "(keyCode ev = LEFT \<or> keyCode ev = RIGHT)
       \<and> ?np (keyCode ev) (menubarItem (barState this)) ?items = Some (?items ! (i - 1))"
      using that res(1) by simp
    then show ?thesis using any [of "?items ! (i - 1)"] by blast
  qed
  have right: "menubarItem (barState (barAfter (handleMenuBarKeydown ?np matches this ev pg)))
         = Some (?items ! (i + 1))"
    if "keyCode ev = RIGHT \<and> i + 1 < length ?items"
  proof -
    have "(keyCode ev = LEFT \<or> keyCode ev = RIGHT)
       \<and> ?np (keyCode ev) (menubarItem (barState this)) ?items = Some (?items ! (i + 1))"
      using that res(2) by simp
    then show ?thesis using any [of "?items ! (i + 1)"] by blast
  qed
  show ?thesis
    using res any [of nextItem] left right by blast
qed

text \<open>C8. A keydown whose key code is none of LEFT, RIGHT, DOWN, HOME, END, SPACE and RETURN
  appends the code to the search string; the first menubar item the string matches, which
  exists when any item matches, becomes the selected menubarItem; when no item matches,
  the state and the page are unchanged.\<close>

theorem MenuBar_type_ahead:
  assumes "keyCode ev \<notin> {LEFT, RIGHT, DOWN, HOME, END, SPACE, RETURN}"
  shows
   "searchString (barAfter (handleMenuBarKeydown nextPrevious matches this ev pg))
      = searchString this @ [keyCode ev]
    \<and> (\<forall>item. find (matches (searchString this @ [keyCode ev])) (menuBarItems this) = Some item \<longrightarrow>
          item \<in> set (menuBarItems this) \<and> matches (searchString this @ [keyCode ev]) item
        \<and> menubarItem (barState (barAfter (handleMenuBarKeydown nextPrevious matches this ev pg)))
            = Some item)
    \<and> ((\<exists>item\<in>set (menuBarItems this). matches (searchString this @ [keyCode ev]) item) \<longrightarrow>
          find (matches (searchString this @ [keyCode ev])) (menuBarItems this) \<noteq> None)
    \<and> ((\<forall>item\<in>set (menuBarItems this). \<not> matches (searchString this @ [keyCode ev]) item) \<longrightarrow>
          barState (barAfter (handleMenuBarKeydown nextPrevious matches this ev pg)) = barState this
        \<and> pageAfter (handleMenuBarKeydown nextPrevious matches this ev pg) = pg)"
proof -
  let ?s = "searchString this @ [keyCode ev]"
  have run: "handleMenuBarKeydown nextPrevious matches this ev pg =
      (case find (matches ?s) (menuBarItems this) of
         None \<Rightarrow> Returned (ev, this\<lparr>searchString := ?s\<rparr>, pg)
       | Some item \<Rightarrow>
           withEvent ev (MenuBar_setState (Some item) (this\<lparr>searchString := ?s\<rparr>) pg))"
    using assms by (simp add: handleMenuBarKeydown_def typeAhead_def Let_def split: option.splits)
  have none: "find (matches ?s) (menuBarItems this) = None"
    if "\<forall>item\<in>set (menuBarItems this). \<not> matches ?s item"
    using that by (simp add: find_None_iff)
  have some: "item \<in> set (menuBarItems this) \<and> matches ?s item"
    if "find (matches ?s) (menuBarItems this) = Some item" for item
    using that by (auto simp: find_Some_iff)
  have ex: "find (matches ?s) (menuBarItems this) \<noteq> None"
    if "\<exists>item\<in>set (menuBarItems this). matches ?s item"
    using that by (auto simp: find_None_iff)
  have str: "searchString (barAfter (handleMenuBarKeydown nextPrevious matches this ev pg)) = ?s"
    by (simp add: run barAfter_def withEvent_def MenuBar_setState_Some split: option.splits)
  have hit: "menubarItem (barState (barAfter (handleMenuBarKeydown nextPrevious matches this ev pg)))
            = Some item"
    if "find (matches ?s) (menuBarItems this) = Some item" for item
    using that by (simp add: run barAfter_def withEvent_def MenuBar_setState_Some)
  have miss: "barState (barAfter (handleMenuBarKeydown nextPrevious matches this ev pg)) = barState this
        \<and> pageAfter (handleMenuBarKeydown nextPrevious matches this ev pg) = pg"
    if "\<forall>item\<in>set (menuBarItems this). \<not> matches ?s item"
    using none [OF that] by (simp add: run barAfter_def pageAfter_def)
  show ?thesis
    using str some hit ex miss by blast
qed

lemma forEachChild_frame:
  "k \<notin> eid ` set kids \<Longrightarrow>
     attributes (MenuBar_forEachChild self n kids index pg) k = attributes pg k"
  by (induction kids arbitrary: index pg)
    (auto simp: Let_def setAttribute_def addEventListener_def)

lemma forEachChild_attrs:
  assumes "distinct (map eid kids)" and "j < length kids"
  shows "attributes (MenuBar_forEachChild self n kids index pg) (eid (kids ! j)) ''aria-setsize''
           = Some (Number n)
       \<and> attributes (MenuBar_forEachChild self n kids index pg) (eid (kids ! j)) ''aria-posinset''
           = Some (Number (index + j + 1))"
  using assms
proof (induction kids arbitrary: index pg j)
  case Nil
  then show ?case by simp
next
  case (Cons item rest)
  show ?case
  proof (cases j)
    case 0
    have "eid item \<notin> eid ` set rest" using Cons.prems(1) by auto
    then show ?thesis
      using 0 by (simp add: Let_def forEachChild_frame attributes_setAttribute addEventListener_def)
  next
    case (Suc j')
    have "attributes (MenuBar_forEachChild self n rest (index + 1) q) (eid (rest ! j')) ''aria-setsize''
           = Some (Number n)
       \<and> attributes (MenuBar_forEachChild self n rest (index + 1) q) (eid (rest ! j')) ''aria-posinset''
           = Some (Number (index + 1 + j' + 1))" for q
      using Cons.prems Suc by (intro Cons.IH) auto
    then show ?thesis using Suc by (simp add: Let_def)
  qed
qed

lemma forEachLink_attrs:
  "name \<noteq> ''aria-describedby'' \<Longrightarrow>
     attributes (MenuBar_forEachLink self links pg) k name = attributes pg k name"
  by (induction links arbitrary: pg)
    (auto simp: Let_def attributes_setAttribute addEventListener_def)

lemma Popup_new_attrs:
  "name \<noteq> ''aria-expanded'' \<Longrightarrow> name \<noteq> ''aria-hidden'' \<Longrightarrow>
     attributes (Popup_new firstChildOf c t pg) k name = attributes pg k name"
  by (simp add: Popup_new_def Popup_setExpanded_def Let_def attributes_setAttribute)

lemma MenuBar_popups_attrs:
  assumes frame: "\<And>t q k. k \<notin> set (ids t) \<Longrightarrow> attributes (snd (newMenu t q)) k = attributes q k"
    and "name \<noteq> ''aria-expanded''" and "name \<noteq> ''aria-hidden''"
    and "\<forall>c\<in>set links. \<forall>t. nextElementSibling root c = Some t \<longrightarrow> k \<notin> set (ids t)"
  shows "attributes (snd (MenuBar_popups newMenu firstChildOf root links acc pg)) k name
           = attributes pg k name"
  using assms(4)
proof (induction links arbitrary: acc pg)
  case Nil
  then show ?case by simp
next
  case (Cons c rest)
  have rest: "attributes (snd (MenuBar_popups newMenu firstChildOf root rest a q)) k name
           = attributes q k name" for a q
    using Cons.prems by (intro Cons.IH) simp
  show ?case
  proof (cases "nextElementSibling root c")
    case None
    then show ?thesis by (simp add: rest)
  next
    case (Some t)
    then have k: "k \<notin> set (ids t)" using Cons.prems by simp
    have "attributes (snd (newMenu t (Popup_new firstChildOf c t pg))) k name = attributes pg k name"
      using frame [OF k] assms(2,3) by (simp add: Popup_new_attrs)
    then show ?thesis
      using Some by (cases "newMenu t (Popup_new firstChildOf c t pg)") (simp add: rest Let_def)
  qed
qed

lemma children_apart:
  assumes d: "distinct (ids list)"
    and c: "c \<in> set (children list)"
    and a: "a \<in> set (collectLinks (children list))"
    and t: "nextElementSibling list a = Some t"
  shows "eid c \<notin> set (ids t)"
proof -
  obtain i n cs where list: "list = Element i n cs" by (cases list)
  have dc: "distinct (concat (map ids cs))" using d list by (simp add: ids_Element)
  have cin: "c \<in> set cs" using c list by simp
  obtain ia oa where ia: "ia \<in> set cs" "children ia = a # oa"
    using a list collectLinks_sub by fastforce
  have "(case oa of [] \<Rightarrow> None | x # _ \<Rightarrow> Some x) = Some t"
    using sibling_of_first_child [OF d _ ia(2)] ia(1) list t by simp
  then obtain oa' where oa: "oa = t # oa'" by (cases oa) auto
  obtain j m where iaE: "ia = Element j m (a # t # oa')"
    using ia(2) oa by (cases ia) auto
  have dia: "distinct (ids ia)" using dc ia(1) by (rule ids_distinct_child)
  have t_in: "set (ids t) \<subseteq> set (ids ia)" by (auto simp: iaE ids_Element)
  show ?thesis
  proof (cases "c = ia")
    case True
    then show ?thesis using dia by (auto simp: iaE ids_Element)
  next
    case False
    then have "set (ids c) \<inter> set (ids ia) = {}"
      using ids_disjoint [OF dc cin ia(1)] by simp
    moreover have "eid c \<in> set (ids c)" by (simp add: eid_in_ids descendants_self)
    ultimately show ?thesis using t_in by blast
  qed
qed

lemma children_ids_distinct:
  "distinct (concat (map ids cs)) \<Longrightarrow> distinct (map eid cs)"
proof (induction cs)
  case Nil
  then show ?case by simp
next
  case (Cons c cs)
  have "eid c \<in> set (ids c)" by (simp add: eid_in_ids descendants_self)
  moreover have "eid x \<in> set (ids x)" for x by (simp add: eid_in_ids descendants_self)
  ultimately have "eid c \<notin> eid ` set cs" using Cons.prems by fastforce
  then show ?case using Cons by simp
qed

lemma MenuBar_init_page:
  assumes "name \<noteq> ''tabindex''"
  shows "attributes (snd (reached (MenuBar_init newMenu firstChildOf ul this pg))) k name =
       attributes (snd (MenuBar_popups newMenu firstChildOf ul (collectLinks (children ul)) []
         (MenuBar_forEachLink (eid ul) (collectLinks (children ul))
           (MenuBar_forEachChild (eid ul) (length (collectLinks (children ul))) (children ul) 0
             (setAttribute ul ''role'' (Text ''menubar'') pg))))) k name"
proof -
  let ?links = "collectLinks (children ul)"
  let ?pg3 = "MenuBar_forEachLink (eid ul) ?links
           (MenuBar_forEachChild (eid ul) (length ?links) (children ul) 0
             (setAttribute ul ''role'' (Text ''menubar'') pg))"
  obtain ps pg4 where p: "MenuBar_popups newMenu firstChildOf ul ?links [] ?pg3 = (ps, pg4)"
    by (cases "MenuBar_popups newMenu firstChildOf ul ?links [] ?pg3")
  show ?thesis
  proof (cases "at ?links 0")
    case None
    then show ?thesis by (simp add: MenuBar_init_def Let_def p)
  next
    case (Some first)
    then show ?thesis
      using assms
      by (simp add: MenuBar_init_def Let_def p getPopupFromMenubarItem_def
          rovingTabIndex_attributes)
  qed
qed

lemma MenuBar_init_sets_size_and_position:
  assumes d: "distinct (ids ul)"
    and frame: "\<And>t q k. k \<notin> set (ids t) \<Longrightarrow> attributes (snd (newMenu t q)) k = attributes q k"
    and j: "j < length (children ul)"
  shows "getAttribute (snd (reached (MenuBar_init newMenu firstChildOf ul this pg)))
           (children ul ! j) ''aria-setsize'' = Some (Number (length (collectLinks (children ul))))
       \<and> getAttribute (snd (reached (MenuBar_init newMenu firstChildOf ul this pg)))
           (children ul ! j) ''aria-posinset'' = Some (Number (j + 1))"
proof -
  let ?kids = "children ul" and ?links = "collectLinks (children ul)"
  let ?c = "children ul ! j"
  let ?pg2 = "MenuBar_forEachChild (eid ul) (length ?links) ?kids 0
             (setAttribute ul ''role'' (Text ''menubar'') pg)"
  have dk: "distinct (map eid ?kids)"
    using d by (cases ul) (simp add: ids_Element children_ids_distinct)
  have apart: "\<forall>a\<in>set ?links. \<forall>t. nextElementSibling ul a = Some t \<longrightarrow> eid ?c \<notin> set (ids t)"
    using children_apart [OF d] j by simp
  have keep: "attributes (snd (reached (MenuBar_init newMenu firstChildOf ul this pg))) (eid ?c) name =
      attributes ?pg2 (eid ?c) name"
    if n: "name \<noteq> ''tabindex''" "name \<noteq> ''aria-expanded''" "name \<noteq> ''aria-hidden''"
      "name \<noteq> ''aria-describedby''" for name
  proof -
    have "attributes (snd (reached (MenuBar_init newMenu firstChildOf ul this pg))) (eid ?c) name =
        attributes (snd (MenuBar_popups newMenu firstChildOf ul ?links []
          (MenuBar_forEachLink (eid ul) ?links ?pg2))) (eid ?c) name"
      using n(1) by (rule MenuBar_init_page)
    also have "\<dots> = attributes (MenuBar_forEachLink (eid ul) ?links ?pg2) (eid ?c) name"
      using frame n(2,3) apart by (rule MenuBar_popups_attrs)
    also have "\<dots> = attributes ?pg2 (eid ?c) name"
      using n(4) by (rule forEachLink_attrs)
    finally show ?thesis .
  qed
  have "attributes ?pg2 (eid ?c) ''aria-setsize'' = Some (Number (length ?links))
      \<and> attributes ?pg2 (eid ?c) ''aria-posinset'' = Some (Number (0 + j + 1))"
    using dk j by (rule forEachChild_attrs)
  then show ?thesis
    by (simp add: getAttribute_def keep)
qed

lemma collectLinks_length: "length (collectLinks cs) \<le> length cs"
  by (induction cs) (auto split: option.splits)

lemma collectLinks_all:
  "length (collectLinks cs) = length cs \<longleftrightarrow>
     (\<forall>c\<in>set cs. \<exists>l. firstElementChild c = Some l \<and> nodeName l = ''A'')"
proof (induction cs)
  case Nil
  then show ?case by simp
next
  case (Cons c cs)
  have le: "length (collectLinks cs) \<le> length cs" by (rule collectLinks_length)
  show ?case using Cons le by (auto split: option.splits)
qed

lemma position_bound_iff:
  "(\<forall>j<length cs. j + 1 \<le> length (collectLinks cs)) \<longleftrightarrow>
     (\<forall>c\<in>set cs. \<exists>l. firstElementChild c = Some l \<and> nodeName l = ''A'')"
proof -
  have le: "length (collectLinks cs) \<le> length cs" by (rule collectLinks_length)
  have "(\<forall>j<length cs. j + 1 \<le> length (collectLinks cs)) \<longleftrightarrow>
      length (collectLinks cs) = length cs"
  proof (cases cs)
    case Nil
    then show ?thesis by simp
  next
    case (Cons c cs')
    then have "length cs - 1 < length cs" by simp
    then have "length cs - 1 + 1 \<le> length (collectLinks cs) \<Longrightarrow> length (collectLinks cs) = length cs"
      using le by simp
    then show ?thesis using \<open>length cs - 1 < length cs\<close> by auto
  qed
  then show ?thesis by (simp add: collectLinks_all)
qed

section \<open>MenuBar on the sample page\<close>

lemma MenuBar_init_roving:
  assumes "distinct (ids ul)" and "collectLinks (children ul) \<noteq> []"
  shows "\<exists>this' pg'. MenuBar_init newMenu firstChildOf ul this pg = Returned (this', pg')
      \<and> menuBarItems this' = collectLinks (children ul)
      \<and> menubarItem (barState this') = Some (hd (collectLinks (children ul)))
      \<and> filter (inTabOrder pg') (menuBarItems this') = [hd (collectLinks (children ul))]"
proof -
  let ?links = "collectLinks (children ul)"
  let ?pg3 = "MenuBar_forEachLink (eid ul) ?links
           (MenuBar_forEachChild (eid ul) (length ?links) (children ul) 0
             (setAttribute ul ''role'' (Text ''menubar'') pg))"
  obtain ps pg4 where p: "MenuBar_popups newMenu firstChildOf ul ?links [] ?pg3 = (ps, pg4)"
    by (cases "MenuBar_popups newMenu firstChildOf ul ?links [] ?pg3")
  have dl: "distinct (map eid ?links)"
    using assms(1) by (cases ul) (simp add: ids_Element collectLinks_distinct)
  have first: "at ?links 0 = Some (hd ?links)" using assms(2) by (rule at_first)
  have mem: "hd ?links \<in> set ?links" using assms(2) by simp
  have tab: "inTabOrder (rovingTabIndex ?links (hd ?links) pg4) e \<longleftrightarrow> e = hd ?links"
    if "e \<in> set ?links" for e
    using dl mem that by (rule roving_tab_order)
  have "filter (inTabOrder (rovingTabIndex ?links (hd ?links) pg4)) ?links
      = filter (\<lambda>e. e = hd ?links) ?links"
    using tab by (intro filter_cong) auto
  also have "\<dots> = [hd ?links]"
    using dl mem by (simp add: filter_only distinct_map)
  finally show ?thesis
    by (simp add: MenuBar_init_def Let_def p first getPopupFromMenubarItem_def)
qed

lemmas bar_defs = sampleBar_def barLinkA_def barLinkB_def barSub_def label_def emptyPage_def

lemma sampleBar_distinct: "distinct (ids sampleBar)"
  by (simp add: ids_def bar_defs)

lemma sampleList_distinct: "distinct (ids sampleList)"
  by (simp add: ids_def sample_defs)

lemma sampleBar_links: "collectLinks (children sampleBar) = [barLinkA, barLinkB]"
  by (simp add: bar_defs firstElementChild_def)

lemma sampleList_links: "collectLinks (children sampleList) = [linkA, linkB]"
  by (simp add: sample_defs firstElementChild_def)

lemma sampleBar_siblings:
  "nextElementSibling sampleBar barLinkA = Some barSub"
  "nextElementSibling sampleBar barLinkB = None"
  by (simp_all add: bar_defs)

lemma sampleBar_node: "nodeName sampleBar = ''UL''" "nodeName barSub = ''UL''"
  "eid barLinkA = 3" "eid barLinkB = 9" "eid label = 4"
  by (simp_all add: bar_defs)

lemma sampleBarInit_parts:
  "\<not> faulted sampleBarInit"
  "menuBarItems (fst (reached sampleBarInit)) = [barLinkA, barLinkB]"
  "lastIndex (fst (reached sampleBarInit)) = 1"
  "barState (fst (reached sampleBarInit)) = \<lparr>menubarItem = Some barLinkA, statePopup = Some (eid barLinkA)\<rparr>"
  "searchString (fst (reached sampleBarInit)) = []"
  "popupOf (snd (reached sampleBarInit)) (eid barLinkA) =
     Some \<lparr>popupController = barLinkA, popupTarget = barSub, expanded = False,
       firstChild = sampleFirstChild barSub\<rparr>"
  by (simp_all add: sampleBarInit_def MenuBar_new_def MenuBar_init_def Let_def sampleBar_links
      sampleBar_siblings sampleBar_node at_def getPopupFromMenubarItem_def sampleMenu_def
      Popup_new_def Popup_setExpanded_def)

text \<open>C1, at the input where the code departs from it. On the sample menubar init leaves
  exactly the first link in the tab order. A click that lands on the span inside that link
  makes the span state.menubarItem, which is no menubar item link, and stateWasUpdated
  then takes both links out of the tab order.\<close>

theorem MenuBar_click_inside_link:
  "label \<in> set (descendants barLinkA)
   \<and> \<not> faulted sampleBarInit
   \<and> menuBarItems (fst (reached sampleBarInit)) = [barLinkA, barLinkB]
   \<and> filter (inTabOrder (snd (reached sampleBarInit))) [barLinkA, barLinkB] = [barLinkA]
   \<and> \<not> faulted (handleMenuBarClick label (fst (reached sampleBarInit)) (snd (reached sampleBarInit)))
   \<and> menubarItem (barState (fst (reached
         (handleMenuBarClick label (fst (reached sampleBarInit)) (snd (reached sampleBarInit))))))
       = Some label
   \<and> filter (inTabOrder (snd (reached
         (handleMenuBarClick label (fst (reached sampleBarInit)) (snd (reached sampleBarInit))))))
         [barLinkA, barLinkB] = []"
proof -
  have ne: "collectLinks (children sampleBar) \<noteq> []" by (simp add: sampleBar_links)
  obtain this' pg' where init:
    "MenuBar_init sampleMenu sampleFirstChild sampleBar
       \<lparr>menuBarMenu = Some sampleBar, menuBarChildren = [], menuBarItems = [],
        menuLength = 0, lastIndex = 0, popups = [],
        barState = \<lparr>menubarItem = None, statePopup = None\<rparr>, searchString = []\<rparr> emptyPage
       = Returned (this', pg')"
    "menuBarItems this' = collectLinks (children sampleBar)"
    "filter (inTabOrder pg') (menuBarItems this') = [hd (collectLinks (children sampleBar))]"
    using MenuBar_init_roving [OF sampleBar_distinct ne] by blast
  have sb: "sampleBarInit = Returned (this', pg')"
    using init(1) by (simp add: sampleBarInit_def MenuBar_new_def Let_def sampleBar_node)
  have tab0: "filter (inTabOrder (snd (reached sampleBarInit))) [barLinkA, barLinkB] = [barLinkA]"
    using init(2,3) by (simp add: sb sampleBar_links)
  have click: "handleMenuBarClick label this' pg' =
      Returned (this'\<lparr>barState := \<lparr>menubarItem = Some label,
           statePopup = (case popupOf pg' (eid label) of None \<Rightarrow> None | Some p \<Rightarrow> Some (eid label))\<rparr>\<rparr>,
        focus label (rovingTabIndex (menuBarItems this') label pg'))"
    by (simp add: handleMenuBarClick_def MenuBar_setState_Some)
  have out: "\<not> inTabOrder (focus label (rovingTabIndex [barLinkA, barLinkB] label pg')) e"
    if "e = barLinkA \<or> e = barLinkB" for e
    using that
    by (auto simp: inTabOrder_def getAttribute_def focus_def rovingTabIndex_attributes bar_defs)
  have inside: "label \<in> set (descendants barLinkA)" by (simp add: bar_defs)
  show ?thesis
    using inside tab0 out
    by (simp add: sb click init(2) sampleBar_links)
qed

theorem MenuBar_horizontal_keys_witness:
  "menubarItem (barState (barAfter (handleMenuBarKeydown nextPreviousFromLeftRight sampleMatches
       (fst (reached sampleBarInit)) (keydown RIGHT)
       (Popup_show (eid barLinkA) (snd (reached sampleBarInit)))))) = Some barLinkB
   \<and> map_option expanded (popupOf (pageAfter (handleMenuBarKeydown nextPreviousFromLeftRight
       sampleMatches (fst (reached sampleBarInit)) (keydown RIGHT)
       (Popup_show (eid barLinkA) (snd (reached sampleBarInit))))) (eid barLinkA)) = Some False
   \<and> handleMenuBarKeydown nextPreviousFromLeftRight sampleMatches (fst (reached sampleBarInit))
       (keydown LEFT) (snd (reached sampleBarInit))
       = Returned (keydown LEFT, fst (reached sampleBarInit), snd (reached sampleBarInit))
   \<and> menubarItem (barState (barAfter (handleMenuBarKeydown nextPreviousFromLeftRight sampleMatches
       ((fst (reached sampleBarInit))
          \<lparr>barState := \<lparr>menubarItem = Some barLinkB, statePopup = None\<rparr>\<rparr>)
       (keydown LEFT) (snd (reached sampleBarInit))))) = Some barLinkA
   \<and> menubarItem (barState (barAfter (handleMenuBarKeydown nextPreviousFromLeftRight sampleMatches
       (fst (reached sampleBarInit)) (keydown HOME) (snd (reached sampleBarInit))))) = Some barLinkA
   \<and> menubarItem (barState (barAfter (handleMenuBarKeydown nextPreviousFromLeftRight sampleMatches
       (fst (reached sampleBarInit)) (keydown END) (snd (reached sampleBarInit))))) = Some barLinkB"
proof -
  let ?bar = "fst (reached sampleBarInit)" and ?pg = "snd (reached sampleBarInit)"
  let ?bar2 = "(fst (reached sampleBarInit))
          \<lparr>barState := \<lparr>menubarItem = Some barLinkB, statePopup = None\<rparr>\<rparr>"
  let ?open = "Popup_show (eid barLinkA) ?pg"
  let ?np = nextPreviousFromLeftRight
  have ab: "barLinkA \<noteq> barLinkB" by (simp add: bar_defs)
  have d: "distinct (menuBarItems ?bar)" "distinct (menuBarItems ?bar2)"
    using ab by (simp_all add: sampleBarInit_parts)
  have i0: "0 < length (menuBarItems ?bar)" and i1: "1 < length (menuBarItems ?bar2)"
    by (simp_all add: sampleBarInit_parts)
  have c0: "menubarItem (barState ?bar) = Some (menuBarItems ?bar ! 0)"
    and c1: "menubarItem (barState ?bar2) = Some (menuBarItems ?bar2 ! 1)"
    by (simp_all add: sampleBarInit_parts)
  have li: "lastIndex ?bar = int (length (menuBarItems ?bar)) - 1"
    "lastIndex ?bar2 = int (length (menuBarItems ?bar2)) - 1"
    by (simp_all add: sampleBarInit_parts)
  have k: "keyCode (keydown RIGHT) = RIGHT" "keyCode (keydown LEFT) = LEFT"
    "keyCode (keydown HOME) = HOME" "keyCode (keydown END) = END"
    by (simp_all add: keydown_def)
  have items: "menuBarItems ?bar ! (0 + 1) = barLinkB" "menuBarItems ?bar2 ! (1 - 1) = barLinkA"
    "hd (menuBarItems ?bar) = barLinkA" "last (menuBarItems ?bar) = barLinkB"
    "(0::nat) + 1 < length (menuBarItems ?bar)" "\<not> (0::nat) < 0"
    by (simp_all add: sampleBarInit_parts)
  have pop: "statePopup (barState ?bar) = Some (eid barLinkA) \<and> popupOf ?open (eid barLinkA) \<noteq> None"
    by (simp add: sampleBarInit_parts Popup_show_def Popup_setExpanded_def Let_def)
  note t0 = MenuBar_horizontal_keys [OF d(1) i0 c0 li(1)]
  note t1 = MenuBar_horizontal_keys [OF d(2) i1 c1 li(2)]
  have rres: "(keyCode (keydown RIGHT) = LEFT \<or> keyCode (keydown RIGHT) = RIGHT)
      \<and> ?np (keyCode (keydown RIGHT)) (menubarItem (barState ?bar)) (menuBarItems ?bar)
          = Some barLinkB"
    using t0 [of "keydown RIGHT" barLinkB sampleMatches ?open] items(1,5) k(1) by simp
  have lres: "(keyCode (keydown LEFT) = LEFT \<or> keyCode (keydown LEFT) = RIGHT)
      \<and> ?np (keyCode (keydown LEFT)) (menubarItem (barState ?bar)) (menuBarItems ?bar) = None"
    using t0 [of "keydown LEFT" barLinkB sampleMatches ?pg] k(2) by simp
  from t0 [of "keydown RIGHT" barLinkB sampleMatches ?open] rres pop
  have r: "menubarItem (barState (barAfter (handleMenuBarKeydown ?np sampleMatches ?bar
         (keydown RIGHT) ?open))) = Some barLinkB
    \<and> map_option expanded (popupOf (pageAfter (handleMenuBarKeydown ?np sampleMatches ?bar
         (keydown RIGHT) ?open)) (eid barLinkA)) = Some False"
    by blast
  from t0 [of "keydown LEFT" barLinkB sampleMatches ?pg] lres
  have l: "handleMenuBarKeydown ?np sampleMatches ?bar (keydown LEFT) ?pg
       = Returned (keydown LEFT, ?bar, ?pg)"
    by blast
  have "keyCode (keydown LEFT) = LEFT \<and> (0::nat) < 1" using k(2) by simp
  with t1 [of "keydown LEFT" barLinkB sampleMatches ?pg]
  have "menubarItem (barState (barAfter (handleMenuBarKeydown ?np sampleMatches ?bar2
         (keydown LEFT) ?pg))) = Some (menuBarItems ?bar2 ! (1 - 1))"
    by blast
  then have l2: "menubarItem (barState (barAfter (handleMenuBarKeydown ?np sampleMatches ?bar2
         (keydown LEFT) ?pg))) = Some barLinkA"
    unfolding items(2) .
  from t0 [of "keydown HOME" barLinkB sampleMatches ?pg] k(3)
  have h: "menubarItem (barState (barAfter (handleMenuBarKeydown ?np sampleMatches ?bar
         (keydown HOME) ?pg))) = Some barLinkA"
    unfolding items(3) by blast
  from t0 [of "keydown END" barLinkB sampleMatches ?pg] k(4)
  have e: "menubarItem (barState (barAfter (handleMenuBarKeydown ?np sampleMatches ?bar
         (keydown END) ?pg))) = Some barLinkB"
    unfolding items(4) by blast
  show ?thesis using r l l2 h e by blast
qed

theorem MenuBar_type_ahead_witness:
  "searchString (barAfter (handleMenuBarKeydown neighbour sampleMatches
       (fst (reached sampleBarInit)) (keydown 69) (snd (reached sampleBarInit)))) = [69]
   \<and> menubarItem (barState (barAfter (handleMenuBarKeydown neighbour sampleMatches
       (fst (reached sampleBarInit)) (keydown 69) (snd (reached sampleBarInit))))) = Some barLinkB
   \<and> barState (barAfter (handleMenuBarKeydown neighbour sampleMatches
       (fst (reached sampleBarInit)) (keydown 88) (snd (reached sampleBarInit))))
       = barState (fst (reached sampleBarInit))
   \<and> pageAfter (handleMenuBarKeydown neighbour sampleMatches
       (fst (reached sampleBarInit)) (keydown 88) (snd (reached sampleBarInit)))
       = snd (reached sampleBarInit)"
proof -
  let ?bar = "fst (reached sampleBarInit)" and ?pg = "snd (reached sampleBarInit)"
  have ab: "barLinkA \<noteq> barLinkB" by (simp add: bar_defs)
  have k: "keyCode (keydown 69) \<notin> {LEFT, RIGHT, DOWN, HOME, END, SPACE, RETURN}"
    "keyCode (keydown 88) \<notin> {LEFT, RIGHT, DOWN, HOME, END, SPACE, RETURN}"
    by (simp_all add: keydown_def LEFT_def RIGHT_def DOWN_def HOME_def END_def SPACE_def
        RETURN_def)
  have s: "searchString ?bar @ [keyCode (keydown 69)] = [69]"
    "searchString ?bar @ [keyCode (keydown 88)] = [88]"
    by (simp_all add: sampleBarInit_parts keydown_def)
  have f: "find (sampleMatches [69]) (menuBarItems ?bar) = Some barLinkB"
    using ab by (simp add: sampleBarInit_parts sampleMatches_def sampleLabel_def)
  have n: "\<forall>item\<in>set (menuBarItems ?bar). \<not> sampleMatches [88] item"
    by (simp add: sampleBarInit_parts sampleMatches_def sampleLabel_def)
  from MenuBar_type_ahead [OF k(1), of neighbour sampleMatches ?bar ?pg] f
  have a: "searchString (barAfter (handleMenuBarKeydown neighbour sampleMatches ?bar (keydown 69) ?pg)) = [69]
    \<and> menubarItem (barState (barAfter (handleMenuBarKeydown neighbour sampleMatches ?bar
          (keydown 69) ?pg))) = Some barLinkB"
    unfolding s by blast
  from MenuBar_type_ahead [OF k(2), of neighbour sampleMatches ?bar ?pg] n
  have b: "barState (barAfter (handleMenuBarKeydown neighbour sampleMatches ?bar (keydown 88) ?pg))
       = barState ?bar
    \<and> pageAfter (handleMenuBarKeydown neighbour sampleMatches ?bar (keydown 88) ?pg) = ?pg"
    unfolding s by blast
  show ?thesis using a b by blast
qed

text \<open>C10. After MenuItem.init on a list, every collected link has aria-setsize equal to the
  number of collected links and aria-posinset equal to its 1-based index among them, which
  lies between 1 and that number. After MenuBar.init, every menubar child has aria-
  posinset equal to its 1-based index among all children and aria-setsize equal to the
  number of children whose first element child is an anchor, so the position is within the
  size for every child exactly when every child has an anchor as its first element child.\<close>

theorem aria_setsize_and_posinset:
  assumes "distinct (ids list)" and "distinct (ids ul)"
    and "\<And>t q k. k \<notin> set (ids t) \<Longrightarrow> attributes (snd (newMenu t q)) k = attributes q k"
  shows
   "(\<forall>j<length (collectLinks (children list)).
        getAttribute (MenuItem_new list pg) (collectLinks (children list) ! j) ''aria-setsize''
          = Some (Number (length (collectLinks (children list))))
      \<and> getAttribute (MenuItem_new list pg) (collectLinks (children list) ! j) ''aria-posinset''
          = Some (Number (j + 1))
      \<and> 1 \<le> j + 1 \<and> j + 1 \<le> length (collectLinks (children list)))
    \<and> (\<forall>j<length (children ul).
        getAttribute (snd (reached (MenuBar_init newMenu firstChildOf ul this pg')))
          (children ul ! j) ''aria-setsize'' = Some (Number (length (collectLinks (children ul))))
      \<and> getAttribute (snd (reached (MenuBar_init newMenu firstChildOf ul this pg')))
          (children ul ! j) ''aria-posinset'' = Some (Number (j + 1)))
    \<and> ((\<forall>j<length (children ul). j + 1 \<le> length (collectLinks (children ul))) \<longleftrightarrow>
         (\<forall>c\<in>set (children ul). \<exists>l. firstElementChild c = Some l \<and> nodeName l = ''A''))"
proof (intro conjI allI impI)
  fix j assume j: "j < length (collectLinks (children list))"
  show "getAttribute (MenuItem_new list pg) (collectLinks (children list) ! j) ''aria-setsize''
          = Some (Number (length (collectLinks (children list))))"
    and "getAttribute (MenuItem_new list pg) (collectLinks (children list) ! j) ''aria-posinset''
          = Some (Number (j + 1))"
    using MenuItem_init_sets_size_and_position [OF assms(1) j] by simp_all
  show "1 \<le> j + 1" by simp
  show "j + 1 \<le> length (collectLinks (children list))" using j by simp
next
  fix j assume j: "j < length (children ul)"
  show "getAttribute (snd (reached (MenuBar_init newMenu firstChildOf ul this pg')))
          (children ul ! j) ''aria-setsize'' = Some (Number (length (collectLinks (children ul))))"
    and "getAttribute (snd (reached (MenuBar_init newMenu firstChildOf ul this pg')))
          (children ul ! j) ''aria-posinset'' = Some (Number (j + 1))"
    using MenuBar_init_sets_size_and_position [OF assms(2,3) j] by simp_all
next
  show "(\<forall>j<length (children ul). j + 1 \<le> length (collectLinks (children ul))) \<longleftrightarrow>
         (\<forall>c\<in>set (children ul). \<exists>l. firstElementChild c = Some l \<and> nodeName l = ''A'')"
    by (rule position_bound_iff)
qed

section \<open>Dialog: the focus trap and dismissal\<close>

lemma indexOf_middle:
  assumes "distinct (before @ fs @ after)" and "i < length fs"
  shows "indexOf (before @ fs @ after) (Some (fs ! i)) = int (length before + i)"
proof -
  have "(before @ fs @ after) ! (length before + i) = fs ! i"
    using assms(2) by (simp add: nth_append)
  moreover have "length before + i < length (before @ fs @ after)" using assms(2) by simp
  ultimately show ?thesis using indexOf_nth [OF assms(1)] by metis
qed

lemma at_middle:
  assumes "i < length fs"
  shows "at (before @ fs @ after) (int (length before + i)) = Some (fs ! i)"
proof -
  have "nat (int (length before + i)) = length before + i" by simp
  moreover have "(before @ fs @ after) ! (length before + i) = fs ! i"
    using assms by (simp add: nth_append)
  moreover have "length before + i < length (before @ fs @ after)" using assms by simp
  ultimately show ?thesis unfolding at_def by (simp del: of_nat_add)
qed

lemma Dialog_tab_inside:
  assumes "visible d"
    and "interactive d = dialogClose d # others"
    and "distinct (before @ interactive d @ after)"
    and "i < length (interactive d)"
    and "activeElement pg = Some (interactive d ! i)"
  shows "activeElement (snd (Dialog_pressTab (before @ interactive d @ after) False d pg)) =
           Some (interactive d ! ((i + 1) mod length (interactive d)))"
    and "activeElement (snd (Dialog_pressTab (before @ interactive d @ after) True d pg)) =
           Some (interactive d ! ((i + length (interactive d) - 1) mod length (interactive d)))"
proof -
  let ?fs = "interactive d" and ?n = "length (interactive d)"
  let ?order = "before @ interactive d @ after"
  have dfs: "distinct ?fs" using assms(3) by simp
  have pos: "0 < ?n" using assms(4) by auto
  have first: "at ?fs 0 = Some (?fs ! 0)" using pos by (simp add: at_def)
  have final: "at ?fs (int ?n - 1) = Some (?fs ! (?n - 1))"
  proof -
    have "nat (int ?n - 1) = ?n - 1" by simp
    then show ?thesis using pos by (simp add: at_def)
  qed
  have eq0: "?fs ! i = ?fs ! 0 \<longleftrightarrow> i = 0"
    using dfs assms(4) pos by (simp add: nth_eq_iff_index_eq)
  have eqn: "?fs ! i = ?fs ! (?n - 1) \<longleftrightarrow> i = ?n - 1"
    using dfs assms(4) pos by (simp add: nth_eq_iff_index_eq)
  have idx: "indexOf ?order (Some (?fs ! i)) = int (length before + i)"
    using assms(3,4) by (rule indexOf_middle)
  have tabk: "TAB \<noteq> ESC" by (simp add: TAB_def ESC_def)
  define tab where "tab shift = \<lparr>keyCode = TAB, shiftKey = shift, defaultPrevented = False,
                 propagationStopped = False\<rparr>" for shift
  have press: "Dialog_pressTab ?order shift d pg =
      (case Dialog_handleKeydown d (tab shift) pg of
         (ev1, d1, pg1) \<Rightarrow>
           if defaultPrevented ev1 then (d1, pg1) else (d1, browserTab ?order shift pg1))"
    for shift
    by (simp add: Dialog_pressTab_def tab_def Let_def)
  have key: "Dialog_handleKeydown d (tab shift) pg =
      (if shift \<and> i = 0 then (preventDefault (tab shift), d, focus (?fs ! (?n - 1)) pg)
       else if \<not> shift \<and> i = ?n - 1 then (preventDefault (tab shift), d, focus (?fs ! 0) pg)
       else (tab shift, d, pg))" for shift
    using assms(1,5) tabk eq0 eqn
    by (simp add: Dialog_handleKeydown_def first final tab_def)
  have pd: "defaultPrevented (preventDefault (tab shift))" "\<not> defaultPrevented (tab shift)"
    for shift
    by (simp_all add: preventDefault_def tab_def)
  have browse: "browserTab ?order shift pg =
      pg\<lparr>activeElement := at ?order (if shift then int (length before + i) - 1
                                      else int (length before + i) + 1)\<rparr>" for shift
    using assms(5) by (simp add: browserTab_def idx Let_def)
  show "activeElement (snd (Dialog_pressTab ?order False d pg)) = Some (?fs ! ((i + 1) mod ?n))"
  proof (cases "i = ?n - 1")
    case True
    then have "(i + 1) mod ?n = 0" using pos by simp
    then show ?thesis
      using True by (simp add: press key pd focus_def)
  next
    case False
    then have lt: "i + 1 < ?n" using assms(4) by simp
    then have m: "(i + 1) mod ?n = i + 1" by simp
    have "at ?order (int (length before + (i + 1))) = Some (?fs ! (i + 1))"
      using lt by (rule at_middle)
    then have nxt: "at ?order (int (length before + i) + 1) = Some (?fs ! (i + 1))"
      by (simp add: add.commute add.left_commute)
    have "Dialog_pressTab ?order False d pg = (d, browserTab ?order False pg)"
      using False by (simp add: press key pd)
    then show ?thesis
      unfolding m using nxt by (simp add: browse)
  qed
  show "activeElement (snd (Dialog_pressTab ?order True d pg)) = Some (?fs ! ((i + ?n - 1) mod ?n))"
  proof (cases i)
    case 0
    then have "(i + ?n - 1) mod ?n = ?n - 1" using pos by simp
    then show ?thesis
      using 0 by (simp add: press key pd focus_def)
  next
    case (Suc j)
    then have m: "(i + ?n - 1) mod ?n = j" and jl: "j < ?n" using assms(4) by simp_all
    have "at ?order (int (length before + j)) = Some (?fs ! j)"
      using jl by (rule at_middle)
    then have prv: "at ?order (int (length before + i) - 1) = Some (?fs ! j)"
      using Suc by (simp add: add.commute add.left_commute)
    have "Dialog_pressTab ?order True d pg = (d, browserTab ?order True pg)"
      using Suc by (simp add: press key pd)
    then show ?thesis
      unfolding m using prv by (simp add: browse)
  qed
qed

text \<open>C6. While the dialog is visible and focus is on one of its focusable elements, Tab on
  the last of them moves focus to the first (the close button), Shift+Tab on the first
  moves focus to the last, and after Tab or Shift+Tab the focused element is still inside
  the dialog's element.\<close>

theorem Dialog_focus_trap:
  assumes "visible d"
    and "interactive d = dialogClose d # others"
    and "\<forall>e\<in>set (interactive d). contains (dialogTarget d) (Some e)"
    and "distinct (before @ interactive d @ after)"
    and "activeElement pg = Some a" and "a \<in> set (interactive d)"
  shows
   "(a = last (interactive d) \<longrightarrow>
       activeElement (snd (Dialog_pressTab (before @ interactive d @ after) False d pg))
         = Some (dialogClose d))
    \<and> (a = dialogClose d \<longrightarrow>
       activeElement (snd (Dialog_pressTab (before @ interactive d @ after) True d pg))
         = Some (last (interactive d)))
    \<and> (\<forall>shift.
         contains (dialogTarget d)
           (activeElement (snd (Dialog_pressTab (before @ interactive d @ after) shift d pg))))"
proof -
  let ?fs = "interactive d" and ?n = "length (interactive d)"
  let ?order = "before @ interactive d @ after"
  obtain i where i: "i < ?n" "a = ?fs ! i"
    using assms(6) by (auto simp: in_set_conv_nth)
  have dfs: "distinct ?fs" using assms(4) by simp
  have pos: "0 < ?n" using i(1) by auto
  have act: "activeElement pg = Some (?fs ! i)" using assms(5) i(2) by simp
  note tab = Dialog_tab_inside [OF assms(1,2,4) i(1) act]
  have hd0: "?fs ! 0 = dialogClose d" using assms(2) by simp
  have lastn: "last ?fs = ?fs ! (?n - 1)" using pos by (simp add: last_conv_nth)
  have fwd: "activeElement (snd (Dialog_pressTab ?order False d pg)) = Some (dialogClose d)"
    if "a = last ?fs"
  proof -
    have "?fs ! i = ?fs ! (?n - 1)" using that i lastn by simp
    then have "i = ?n - 1" using nth_eq_iff_index_eq [OF dfs i(1), of "?n - 1"] pos by simp
    then have "(i + 1) mod ?n = 0" using pos by simp
    then show ?thesis using tab(1) hd0 by simp
  qed
  have bwd: "activeElement (snd (Dialog_pressTab ?order True d pg)) = Some (last ?fs)"
    if "a = dialogClose d"
  proof -
    have "?fs ! i = ?fs ! 0" using that i hd0 by simp
    then have "i = 0" using nth_eq_iff_index_eq [OF dfs i(1) pos] by simp
    then have "(i + ?n - 1) mod ?n = ?n - 1" using pos by simp
    then show ?thesis using tab(2) lastn by simp
  qed
  have stay: "contains (dialogTarget d) (activeElement (snd (Dialog_pressTab ?order shift d pg)))"
    for shift
  proof -
    have "(i + 1) mod ?n < ?n" "(i + ?n - 1) mod ?n < ?n" using pos by simp_all
    then have "?fs ! ((i + 1) mod ?n) \<in> set ?fs" "?fs ! ((i + ?n - 1) mod ?n) \<in> set ?fs"
      by (simp_all only: nth_mem)
    then show ?thesis using tab assms(3) by (cases shift) simp_all
  qed
  show ?thesis using fwd bwd stay by blast
qed

lemmas dialog_defs = modal_def pageOrder_def closeButton_def item1_def item2_def item3_def
  lastItem_def opener_def dialogElement_def

theorem Dialog_focus_trap_witness:
  "activeElement (snd (Dialog_pressTab pageOrder False (fst (Dialog_show modal emptyPage))
       (focus lastItem (snd (Dialog_show modal emptyPage))))) = Some closeButton
   \<and> activeElement (snd (Dialog_pressTab pageOrder True (fst (Dialog_show modal emptyPage))
       (snd (Dialog_show modal emptyPage)))) = Some lastItem
   \<and> contains dialogElement
       (activeElement (snd (Dialog_pressTab pageOrder False (fst (Dialog_show modal emptyPage))
         (focus item2 (snd (Dialog_show modal emptyPage))))))"
proof -
  let ?d = "fst (Dialog_show modal emptyPage)" and ?pg = "snd (Dialog_show modal emptyPage)"
  have d: "visible ?d" "interactive ?d = dialogClose ?d # [item1, item2, item3, lastItem]"
    "dialogClose ?d = closeButton" "dialogTarget ?d = dialogElement"
    "last (interactive ?d) = lastItem"
    by (simp_all add: Dialog_show_def Dialog_setState_def Let_def modal_def)
  have inside: "\<forall>e\<in>set (interactive ?d). contains (dialogTarget ?d) (Some e)"
    by (simp add: Dialog_show_def Dialog_setState_def Let_def contains_def dialog_defs)
  have order: "pageOrder = [opener] @ interactive ?d @ []"
    by (simp add: Dialog_show_def Dialog_setState_def Let_def modal_def pageOrder_def)
  have dist: "distinct ([opener] @ interactive ?d @ [])"
    by (simp add: Dialog_show_def Dialog_setState_def Let_def dialog_defs)
  have a1: "activeElement (focus lastItem ?pg) = Some lastItem" "lastItem \<in> set (interactive ?d)"
    and a2: "activeElement ?pg = Some closeButton" "closeButton \<in> set (interactive ?d)"
    and a3: "activeElement (focus item2 ?pg) = Some item2" "item2 \<in> set (interactive ?d)"
    by (simp_all add: Dialog_show_def Dialog_setState_def Let_def focus_def modal_def)
  from Dialog_focus_trap [OF d(1,2) inside dist a1]
  have "activeElement (snd (Dialog_pressTab pageOrder False ?d (focus lastItem ?pg)))
      = Some closeButton"
    unfolding order [symmetric] d(3,5) by blast
  moreover from Dialog_focus_trap [OF d(1,2) inside dist a2]
  have "activeElement (snd (Dialog_pressTab pageOrder True ?d ?pg)) = Some lastItem"
    unfolding order [symmetric] d(3,5) by blast
  moreover from Dialog_focus_trap [OF d(1,2) inside dist a3]
  have "contains dialogElement
       (activeElement (snd (Dialog_pressTab pageOrder False ?d (focus item2 ?pg))))"
    unfolding order [symmetric] d(4) by blast
  ultimately show ?thesis by blast
qed

text \<open>C7. A visible Dialog is not visible after an Escape keydown that reaches it, nor after a
  click on its overlay; an expanded Popup is not expanded after an Escape keydown, nor
  after a click outside its controller and target.\<close>

theorem dismiss_on_escape_and_outside_click:
  "(visible d \<and> keyCode ev = ESC \<longrightarrow>
       \<not> visible (fst (snd (Dialog_handleKeydown d ev pg))))
   \<and> (visible d \<longrightarrow> \<not> visible (fst (Dialog_handleOverlayClick d pg)))
   \<and> (popupOf pg ref = Some p \<and> expanded p \<and> keyCode ev = ESC \<longrightarrow>
       map_option expanded (popupOf (snd (Popup_handleKeydown ref ev pg)) ref) = Some False)
   \<and> (popupOf pg ref = Some p \<and> expanded p
        \<and> \<not> contains (popupController p) (Some clicked)
        \<and> \<not> contains (popupTarget p) (Some clicked) \<longrightarrow>
       map_option expanded (popupOf (Popup_handleOutsideClick ref clicked pg) ref) = Some False)"
  by (auto simp: Dialog_handleKeydown_def Dialog_handleOverlayClick_def Dialog_hide_def
      Dialog_setState_def Popup_handleKeydown_def Popup_handleOutsideClick_def Popup_hide_def
      Popup_setExpanded_def Let_def)

theorem dismiss_on_escape_and_outside_click_witness:
  "\<not> visible (fst (snd (Dialog_handleKeydown (fst (Dialog_show modal emptyPage)) (keydown ESC)
       (focus lastItem (snd (Dialog_show modal emptyPage))))))
   \<and> \<not> visible (fst (Dialog_handleOverlayClick (fst (Dialog_show modal emptyPage))
       (snd (Dialog_show modal emptyPage))))
   \<and> map_option expanded (popupOf (snd (Popup_handleKeydown (eid barLinkA) (keydown ESC)
       (Popup_show (eid barLinkA) (Popup_new sampleFirstChild barLinkA barSub emptyPage))))
       (eid barLinkA)) = Some False
   \<and> map_option expanded (popupOf (Popup_handleOutsideClick (eid barLinkA) barLinkB
       (Popup_show (eid barLinkA) (Popup_new sampleFirstChild barLinkA barSub emptyPage)))
       (eid barLinkA)) = Some False"
proof -
  let ?d = "fst (Dialog_show modal emptyPage)" and ?pg = "snd (Dialog_show modal emptyPage)"
  let ?pp = "Popup_show (eid barLinkA) (Popup_new sampleFirstChild barLinkA barSub emptyPage)"
  define pop where "pop = \<lparr>popupController = barLinkA, popupTarget = barSub, expanded = True,
        firstChild = sampleFirstChild barSub\<rparr>"
  have v: "visible ?d \<and> keyCode (keydown ESC) = ESC"
    by (simp add: Dialog_show_def Dialog_setState_def Let_def keydown_def)
  have p: "popupOf ?pp (eid barLinkA) = Some pop \<and> expanded pop
      \<and> keyCode (keydown ESC) = ESC"
    by (simp add: pop_def Popup_show_def Popup_new_def Popup_setExpanded_def Let_def
        setAttribute_def keydown_def)
  have out: "\<not> contains (popupController pop) (Some barLinkB)
      \<and> \<not> contains (popupTarget pop) (Some barLinkB)"
    by (simp add: pop_def contains_def bar_defs)
  note t1 = dismiss_on_escape_and_outside_click
    [of ?d "keydown ESC" "focus lastItem ?pg" "eid barLinkA" pop barLinkB]
  note t2 = dismiss_on_escape_and_outside_click
    [of ?d "keydown ESC" ?pg "eid barLinkA" pop barLinkB]
  note t3 = dismiss_on_escape_and_outside_click
    [of ?d "keydown ESC" ?pp "eid barLinkA" pop barLinkB]
  from t1 v have a: "\<not> visible (fst (snd (Dialog_handleKeydown ?d (keydown ESC) (focus lastItem ?pg))))"
    by blast
  from t2 v have b: "\<not> visible (fst (Dialog_handleOverlayClick ?d ?pg))" by blast
  from t3 p out have c: "map_option expanded (popupOf (snd (Popup_handleKeydown (eid barLinkA)
       (keydown ESC) ?pp)) (eid barLinkA)) = Some False"
    and e: "map_option expanded (popupOf (Popup_handleOutsideClick (eid barLinkA) barLinkB ?pp)
       (eid barLinkA)) = Some False"
    by blast+
  show ?thesis using a b c e by blast
qed

theorem aria_setsize_and_posinset_witness:
  "getAttribute (MenuItem_new sampleList emptyPage) linkB ''aria-setsize'' = Some (Number 2)
   \<and> getAttribute (MenuItem_new sampleList emptyPage) linkB ''aria-posinset'' = Some (Number 2)
   \<and> getAttribute (snd (reached (MenuBar_init sampleMenu sampleFirstChild sampleList
         (blankBar sampleList) emptyPage)))
       (Element 9 ''LI'' [Element 10 ''SPAN'' []]) ''aria-setsize'' = Some (Number 2)
   \<and> getAttribute (snd (reached (MenuBar_init sampleMenu sampleFirstChild sampleList
         (blankBar sampleList) emptyPage)))
       (Element 9 ''LI'' [Element 10 ''SPAN'' []]) ''aria-posinset'' = Some (Number 3)
   \<and> \<not> (\<forall>j<length (children sampleList). j + 1 \<le> length (collectLinks (children sampleList)))"
proof -
  have frame: "\<And>t q k. k \<notin> set (ids t) \<Longrightarrow> attributes (snd (sampleMenu t q)) k = attributes q k"
    by (simp add: sampleMenu_def)
  note t = aria_setsize_and_posinset [where newMenu = sampleMenu and pg = emptyPage
        and firstChildOf = sampleFirstChild and this = "blankBar sampleList" and pg' = emptyPage,
      OF sampleList_distinct sampleList_distinct frame]
  have kids: "children sampleList ! 2 = Element 9 ''LI'' [Element 10 ''SPAN'' []]"
    "length (children sampleList) = 3"
    by (simp_all add: sampleList_def)
  have one: "(1::nat) < length (collectLinks (children sampleList))"
    "collectLinks (children sampleList) ! 1 = linkB" "length (collectLinks (children sampleList)) = 2"
    by (simp_all add: sampleList_links)
  have two: "(2::nat) < length (children sampleList)" by (simp add: kids)
  have bad: "\<not> (\<forall>c\<in>set (children sampleList). \<exists>l. firstElementChild c = Some l \<and> nodeName l = ''A'')"
    by (simp add: sampleList_def firstElementChild_def)
  from t one(1) have a: "getAttribute (MenuItem_new sampleList emptyPage)
        (collectLinks (children sampleList) ! 1) ''aria-setsize''
          = Some (Number (length (collectLinks (children sampleList))))
      \<and> getAttribute (MenuItem_new sampleList emptyPage)
        (collectLinks (children sampleList) ! 1) ''aria-posinset'' = Some (Number (1 + 1))"
    by blast
  from t two have b: "getAttribute (snd (reached (MenuBar_init sampleMenu sampleFirstChild sampleList
         (blankBar sampleList) emptyPage)))
          (children sampleList ! 2) ''aria-setsize''
        = Some (Number (length (collectLinks (children sampleList))))
      \<and> getAttribute (snd (reached (MenuBar_init sampleMenu sampleFirstChild sampleList
         (blankBar sampleList) emptyPage)))
          (children sampleList ! 2) ''aria-posinset'' = Some (Number (2 + 1))"
    by blast
  from t bad have c: "\<not> (\<forall>j<length (children sampleList). j + 1 \<le> length (collectLinks (children sampleList)))"
    by blast
  show ?thesis using a b c unfolding kids one(2,3) by simp
qed

end
